theory Spec2Isabelle
  imports Main "HOL-Library.Sublist"
begin

section \<open>Strings as Python sees them\<close>

text \<open>
  A Python string is a sequence of characters, and \<open>len\<close>, slicing, \<open>strip\<close>, \<open>split\<close>
  and regular expressions all work character by character. A character is modelled by
  its Unicode code point, a string by the list of its code points.
\<close>

type_synonym uchar = nat

type_synonym ustring = "uchar list"

text \<open>The code point of an ASCII character, and the string of an ASCII literal.\<close>

definition uc :: "char \<Rightarrow> uchar" where
  "uc c = of_char c"

definition u :: "string \<Rightarrow> ustring" where
  "u s = map uc s"

text \<open>
  Whitespace is what \<open>str.isspace\<close> accepts; \<open>str.strip()\<close>, \<open>str.split()\<close> and the
  class \<open>\s\<close> of a Unicode pattern use the same test. These are the code points 9 to 13,
  28 to 32, 133, 160, 5760, 8192 to 8202, 8232, 8233, 8239, 8287 and 12288.
\<close>

definition is_space :: "uchar \<Rightarrow> bool" where
  "is_space c =
     ((9 \<le> c \<and> c \<le> 13) \<or> (28 \<le> c \<and> c \<le> 32) \<or> c = 133 \<or> c = 160 \<or> c = 5760
      \<or> (8192 \<le> c \<and> c \<le> 8202) \<or> c = 8232 \<or> c = 8233 \<or> c = 8239 \<or> c = 8287
      \<or> c = 12288)"

text \<open>\<open>s.strip()\<close>\<close>

definition strip :: "ustring \<Rightarrow> ustring" where
  "strip s = rev (dropWhile is_space (rev (dropWhile is_space s)))"

text \<open>\<open>s.split()\<close> with no argument: the maximal runs of non-whitespace.\<close>

function split :: "ustring \<Rightarrow> ustring list" where
  "split s =
     (let t = dropWhile is_space s
      in if t = [] then []
         else takeWhile (\<lambda>c. \<not> is_space c) t # split (dropWhile (\<lambda>c. \<not> is_space c) t))"
  by pat_completeness auto
termination
proof (relation "measure length")
  show "wf (measure length)" by simp
next
  fix s t :: ustring
  assume t: "t = dropWhile is_space s" and ne: "t \<noteq> []"
  have "length (dropWhile (\<lambda>c. \<not> is_space c) t) < length t"
  proof (cases t)
    case Nil
    with ne show ?thesis by simp
  next
    case (Cons c cs)
    have "\<not> is_space (hd t)"
      using ne unfolding t by (rule hd_dropWhile)
    with Cons have "dropWhile (\<lambda>c. \<not> is_space c) t = dropWhile (\<lambda>c. \<not> is_space c) cs"
      by simp
    moreover have "length (dropWhile (\<lambda>c. \<not> is_space c) cs) \<le> length cs"
      by (rule length_dropWhile_le)
    ultimately show ?thesis using Cons by simp
  qed
  also have "length t \<le> length s"
    unfolding t by (rule length_dropWhile_le)
  finally show "(dropWhile (\<lambda>c. \<not> is_space c) t, s) \<in> measure length"
    by simp
qed

declare split.simps [simp del]

text \<open>
  \<open>s.upper()\<close> on the letters \<open>a\<close> to \<open>z\<close>; every other character is left as it is
  (the stance labels of the interface are ASCII).
\<close>

definition upper_char :: "uchar \<Rightarrow> uchar" where
  "upper_char c = (if 97 \<le> c \<and> c \<le> 122 then c - 32 else c)"

definition upper :: "ustring \<Rightarrow> ustring" where
  "upper s = map upper_char s"

text \<open>\<open>s.replace(c, '')\<close> for a one-character \<open>c\<close>.\<close>

definition remove_char :: "uchar \<Rightarrow> ustring \<Rightarrow> ustring" where
  "remove_char c s = filter (\<lambda>d. d \<noteq> c) s"

text \<open>\<open>str(n)\<close> for a non-negative integer: its decimal digits.\<close>

definition digit :: "nat \<Rightarrow> uchar" where
  "digit d = 48 + d"

function str_nat :: "nat \<Rightarrow> ustring" where
  "str_nat n = (if n < 10 then [digit n] else str_nat (n div 10) @ [digit (n mod 10)])"
  by pat_completeness auto
termination
  by (relation "measure id") auto

declare str_nat.simps [simp del]

text \<open>Reading a decimal string back; used to show that \<open>str\<close> is injective.\<close>

definition digit_val :: "uchar \<Rightarrow> nat" where
  "digit_val c = c - 48"

definition nat_of_str :: "ustring \<Rightarrow> nat" where
  "nat_of_str s = foldl (\<lambda>a c. 10 * a + digit_val c) 0 s"

definition double_quote :: uchar where
  "double_quote = 34"

definition single_quote :: uchar where
  "single_quote = 39"

definition newline :: uchar where
  "newline = 10"

text \<open>Literals keep their length, their elements and their differences.\<close>

lemma is_space_numeral [simp]:
  "is_space (numeral k) =
     ((9 \<le> (numeral k :: nat) \<and> (numeral k :: nat) \<le> 13)
      \<or> (28 \<le> (numeral k :: nat) \<and> (numeral k :: nat) \<le> 32)
      \<or> (numeral k :: nat) = 133 \<or> (numeral k :: nat) = 160 \<or> (numeral k :: nat) = 5760
      \<or> (8192 \<le> (numeral k :: nat) \<and> (numeral k :: nat) \<le> 8202)
      \<or> (numeral k :: nat) = 8232 \<or> (numeral k :: nat) = 8233 \<or> (numeral k :: nat) = 8239
      \<or> (numeral k :: nat) = 8287 \<or> (numeral k :: nat) = 12288)"
  by (simp add: is_space_def)

lemma uc_eq_iff [simp]: "uc c = uc d \<longleftrightarrow> c = d"
  by (simp add: uc_def)

lemma u_Nil [simp]: "u [] = []"
  by (simp add: u_def)

lemma u_Cons: "u (c # cs) = uc c # u cs"
  by (simp add: u_def)

lemma u_eq_Nil_iff [simp]: "u s = [] \<longleftrightarrow> s = []"
  by (simp add: u_def)

lemma u_eq_iff [simp]: "u s = u t \<longleftrightarrow> s = t"
  by (simp add: u_def inj_map_eq_map inj_on_def)

lemma u_append [simp]: "u s @ u t = u (s @ t)"
  by (simp add: u_def)

lemma u_append_more [simp]: "u s @ u t @ r = u (s @ t) @ r"
  by (simp add: u_def)

lemma length_u [simp]: "length (u s) = length s"
  by (simp add: u_def)

lemma uc_in_set_u [simp]: "uc c \<in> set (u s) \<longleftrightarrow> c \<in> set s"
  by (auto simp: u_def)

section \<open>Data model\<close>

datatype py_error = KeyError ustring | IndexError

text \<open>The metadata dictionary written by \<open>store_conversation_rag\<close>.\<close>

record conv_metadata =
  md_response :: ustring
  md_persona :: ustring
  md_stance :: ustring
  md_timestamp :: ustring

text \<open>One entry of a collection: id, document and metadata.\<close>

record conv_record =
  rec_id :: ustring
  rec_document :: ustring
  rec_metadata :: conv_metadata

text \<open>
  The vector store is an external library. A collection is modelled by the list of its
  entries in insertion order, which is the order \<open>collection.get()\<close> is taken to return
  (the source slices the ids it returns to find the oldest entries). \<open>count()\<close> is the
  length of the list, \<open>add\<close> appends one entry and \<open>delete(ids)\<close> removes every entry
  whose id is listed.
\<close>

type_synonym collection = "conv_record list"

definition collection_count :: "collection \<Rightarrow> nat" where
  "collection_count col = length col"

definition collection_add :: "collection \<Rightarrow> conv_record \<Rightarrow> collection" where
  "collection_add col r = col @ [r]"

definition collection_get_ids :: "collection \<Rightarrow> ustring list" where
  "collection_get_ids col = map rec_id col"

definition collection_delete :: "collection \<Rightarrow> ustring list \<Rightarrow> collection" where
  "collection_delete col ids = filter (\<lambda>r. rec_id r \<notin> set ids) col"

text \<open>
  The process-wide mutable state: the dictionary \<open>CHAT_COLLECTIONS\<close> (whose collections
  are mutated in place) and the dictionary \<open>conversation_counter\<close>.
\<close>

record app_state =
  chat_collections :: "ustring \<rightharpoonup> collection"
  conversation_counter :: "ustring \<rightharpoonup> nat"

definition init_state :: app_state where
  "init_state =
     \<lparr> chat_collections = [(u ''Timo'') \<mapsto> [], (u ''Shark'') \<mapsto> []],
       conversation_counter = [(u ''Timo'') \<mapsto> 0, (u ''Shark'') \<mapsto> 0] \<rparr>"

section \<open>Memory writer\<close>

text \<open>The f-string \<open>{chat_id}_{conversation_counter[chat_id]}\<close>.\<close>

definition conv_id :: "ustring \<Rightarrow> nat \<Rightarrow> ustring" where
  "conv_id chat_id n = chat_id @ (u ''_'') @ str_nat n"

text \<open>
  \<open>store_conversation_rag\<close>. The timestamp \<open>datetime.now().isoformat()\<close> is the
  argument \<open>now\<close>. Both dictionary lookups raise \<open>KeyError\<close> on an unknown chat, before
  anything is changed.
\<close>

definition store_conversation_rag ::
  "app_state \<Rightarrow> ustring \<Rightarrow> ustring \<Rightarrow> ustring \<Rightarrow> ustring \<Rightarrow> ustring \<Rightarrow> ustring \<Rightarrow> py_error + app_state" where
  "store_conversation_rag s now chat_id user_message persona stance response =
     (case chat_collections s chat_id of
        None \<Rightarrow> Inl (KeyError chat_id)
      | Some collection \<Rightarrow>
         (case conversation_counter s chat_id of
            None \<Rightarrow> Inl (KeyError chat_id)
          | Some n \<Rightarrow>
             (let counter = n + 1;
                  cid = conv_id chat_id counter;
                  added = collection_add collection
                     \<lparr> rec_id = cid, rec_document = user_message,
                       rec_metadata = \<lparr> md_response = response, md_persona = persona,
                                        md_stance = stance, md_timestamp = now \<rparr> \<rparr>;
                  current_count = collection_count added;
                  pruned =
                    (if current_count > 20
                     then (let oldest_ids = take (current_count - 20) (collection_get_ids added)
                           in collection_delete added oldest_ids)
                     else added)
              in Inr (s \<lparr> chat_collections := (chat_collections s)(chat_id \<mapsto> pruned),
                         conversation_counter := (conversation_counter s)(chat_id \<mapsto> counter) \<rparr>))))"

text \<open>
  The body of the \<open>DELETE /memory/<chat_id>\<close> route. The result is the HTTP status and
  whether the JSON body reports success.
\<close>

definition clear_memory :: "app_state \<Rightarrow> ustring \<Rightarrow> (nat \<times> bool) \<times> app_state" where
  "clear_memory s chat_id =
     (case chat_collections s chat_id of
        None \<Rightarrow> ((400, False), s)
      | Some collection \<Rightarrow>
         (let ids = collection_get_ids collection;
              emptied = (if ids \<noteq> [] then collection_delete collection ids else collection)
          in ((200, True),
              s \<lparr> chat_collections := (chat_collections s)(chat_id \<mapsto> emptied),
                  conversation_counter := (conversation_counter s)(chat_id \<mapsto> 0) \<rparr>)))"

section \<open>Personas\<close>

definition em_dash :: ustring where
  "em_dash = [8212]"

definition strategist_text :: ustring where
  "strategist_text =
     (u ''You are a highly composed, nerd-like professional, inspired by Gary Johnson from Hitman. You speak with quiet confidence, carry an intriguing aura, and balance intellect with subtle humor. You show great chemistry in conversation, sounding observant, analytical, and sharp'')
     @ em_dash @ (u ''always a step ahead without losing charm.'')"

definition visionary_text :: ustring where
  "visionary_text =
     (u ''You are Eddie Morra from Limitless when on NZT: supremely confident, witty, flirtatious, and razor-sharp. Your speech is smooth, fast-paced, and assertive, always laced with clever observations. You sound interesting and magnetic, as if you can read the world in detail and bend it to your will.'')"

definition rebel_text :: ustring where
  "rebel_text =
     (u ''You embody Tyler Durden from Fight Club: a dark philosopher and anarchist. You challenge consumerism and conformity, speaking with passion, madness, and a dangerous kind of charisma. Your tone is raw, rebellious, and existential, with a readiness to fight and a dedication to tearing down illusions.'')"

definition orator_text :: ustring where
  "orator_text =
     (u ''You speak like an 18th-century Englishman'') @ em_dash
     @ (u ''rhetorical, poetic, and refined. Your language is ornate and formal, filled with metaphors and elevated diction. You sound weary yet profound, as though you are both observing and lamenting the world with philosophical eloquence.'')"

definition conversationalist_text :: ustring where
  "conversationalist_text =
     (u ''You are a modern Gen Z American, casual yet mature. Your tone is natural, conversational, and slightly witty, but not slang-heavy like rap. You mix straightforward realism with light humor, sounding relatable, grounded, and socially aware without trying too hard.'')"

text \<open>The dictionary \<open>PERSONAS\<close>.\<close>

definition PERSONAS :: "ustring \<rightharpoonup> ustring" where
  "PERSONAS =
     map_of [((u ''The Strategist''), strategist_text),
             ((u ''The Visionary''), visionary_text),
             ((u ''The Rebel''), rebel_text),
             ((u ''The Orator''), orator_text),
             ((u ''The Conversationalist''), conversationalist_text)]"

section \<open>The outside world\<close>

text \<open>
  What \<open>collection.query\<close> gives back: it raises, or it returns the lists
  \<open>results['documents']\<close> and \<open>results['metadatas']\<close> (one inner list per query text).
\<close>

datatype query_outcome =
  QueryRaised ustring
| QueryResults "ustring list list" "conv_metadata list list"

text \<open>The JSON document of the generation API, as far as \<open>generate_reply\<close> reads it.\<close>

record api_part =
  part_text :: "ustring option"

record api_content =
  content_parts :: "api_part list option"

record api_candidate =
  cand_finishReason :: "ustring option"
  cand_content :: "api_content option"

record api_data =
  data_candidates :: "api_candidate list option"

text \<open>
  The outcome of the \<open>try\<close> block's request: an exception (transport error, non-2xx
  status, undecodable body) with its message, or the decoded document.
\<close>

datatype upstream = Raised ustring | Returned api_data

text \<open>The two texts of the request payload.\<close>

record payload =
  pl_contents :: ustring
  pl_system_instruction :: ustring

text \<open>
  The environment of a request: the configured API key, the similarity search of the
  vector store (given the collection's entries, the query text and \<open>n_results\<close>) and the
  remote generation API (given the payload).
\<close>

record env =
  gemini_api_key :: ustring
  collection_query :: "collection \<Rightarrow> ustring \<Rightarrow> nat \<Rightarrow> query_outcome"
  requests_post :: "payload \<Rightarrow> upstream"

text \<open>One call of \<open>collection.query\<close>: the chat, the query text and \<open>n_results\<close>.\<close>

type_synonym query_call = "ustring \<times> ustring \<times> nat"

section \<open>Retrieval\<close>

definition context_header :: ustring where
  "context_header =
     [newline] @ (u ''--- RELEVANT PAST CONVERSATIONS (Retrieved via Semantic Search) ---'') @ [newline]"

definition context_footer :: ustring where
  "context_footer =
     [newline] @ (u ''--- END OF RETRIEVED CONTEXT ---'') @ [newline]
     @ (u ''Note: These conversations were retrieved because they are semantically similar to the current message. Reference them naturally if relevant.'')
     @ [newline, newline]"

text \<open>The two lines added for hit number \<open>i\<close>.\<close>

definition format_hit :: "nat \<Rightarrow> ustring \<Rightarrow> conv_metadata \<Rightarrow> ustring" where
  "format_hit i doc metadata =
     [newline] @ str_nat i @ (u ''. Past question: '') @ [double_quote] @ doc @ [double_quote, newline]
     @ (u ''   You ('') @ md_persona metadata @ (u '') replied: '') @ [double_quote]
     @ md_response metadata @ [double_quote, newline]"

text \<open>The loop over \<open>enumerate(zip(documents, metadatas), 1)\<close>.\<close>

fun format_hits :: "nat \<Rightarrow> (ustring \<times> conv_metadata) list \<Rightarrow> ustring" where
  "format_hits i [] = []"
| "format_hits i ((doc, metadata) # rest) = format_hit i doc metadata @ format_hits (i + 1) rest"

text \<open>
  \<open>retrieve_relevant_context_rag\<close>. The result is the list of similarity queries that
  were issued and the context string. The lookup of the collection is outside the
  \<open>try\<close> block, so an unknown chat raises \<open>KeyError\<close>; everything raised inside it,
  including the \<open>IndexError\<close> of \<open>results['metadatas'][0]\<close>, ends in the empty string.
\<close>

definition retrieve_relevant_context_rag ::
  "env \<Rightarrow> app_state \<Rightarrow> ustring \<Rightarrow> ustring \<Rightarrow> nat \<Rightarrow> py_error + (query_call list \<times> ustring)" where
  "retrieve_relevant_context_rag e s chat_id current_message top_k =
     (case chat_collections s chat_id of
        None \<Rightarrow> Inl (KeyError chat_id)
      | Some collection \<Rightarrow>
         if collection_count collection = 0 then Inr ([], [])
         else
           (let n_results = min top_k (collection_count collection);
                calls = [(chat_id, current_message, n_results)]
            in case collection_query e collection current_message n_results of
                 QueryRaised msg \<Rightarrow> Inr (calls, [])
               | QueryResults documents metadatas \<Rightarrow>
                  (case documents of
                     [] \<Rightarrow> Inr (calls, [])
                   | docs0 # _ \<Rightarrow>
                      if docs0 = [] then Inr (calls, [])
                      else (case metadatas of
                              [] \<Rightarrow> Inr (calls, [])
                            | metas0 # _ \<Rightarrow>
                               Inr (calls, context_header @ format_hits 1 (zip docs0 metas0)
                                           @ context_footer)))))"

text \<open>
  The context string that \<open>retrieve_relevant_context_rag\<close> computes for a known chat
  with the entries \<open>col\<close>.
\<close>

definition retrieved_context :: "env \<Rightarrow> collection \<Rightarrow> ustring \<Rightarrow> nat \<Rightarrow> ustring" where
  "retrieved_context e col current_message top_k =
     (if col = [] then []
      else (case collection_query e col current_message (min top_k (length col)) of
              QueryRaised msg \<Rightarrow> []
            | QueryResults documents metadatas \<Rightarrow>
               (case documents of
                  [] \<Rightarrow> []
                | docs0 # _ \<Rightarrow>
                   if docs0 = [] then []
                   else (case metadatas of
                           [] \<Rightarrow> []
                         | metas0 # _ \<Rightarrow>
                            context_header @ format_hits 1 (zip docs0 metas0) @ context_footer))))"

section \<open>Prompt composition\<close>

definition task_instruction :: "ustring \<Rightarrow> ustring" where
  "task_instruction response_hint =
     (u ''The user wants to reply with: '') @ [single_quote] @ response_hint @ [single_quote]
     @ (u ''. Rephrase this response in your persona's voice and style while keeping the same core meaning. Make it sound natural and characteristic of your persona.'')"

definition memory_instruction_text :: ustring where
  "memory_instruction_text =
     (u ''Context from past conversations is shown above. Only reference it if directly relevant to answering the current question. If the current message is a new topic, respond independently.'')"

text \<open>The first \<open>if\<close> of \<open>generate_reply\<close>: the user content and the memory instruction.\<close>

definition user_message_with_context :: "ustring \<Rightarrow> ustring \<Rightarrow> ustring \<Rightarrow> ustring" where
  "user_message_with_context user_message response_hint memory_context =
     (if response_hint \<noteq> []
      then (u ''Incoming message: '') @ user_message @ [newline, newline]
           @ (u ''User's draft response: '') @ response_hint @ [newline, newline]
           @ task_instruction response_hint
      else if memory_context \<noteq> []
      then memory_context @ (u ''Current message: '') @ user_message
      else user_message)"

definition memory_instruction :: "ustring \<Rightarrow> ustring \<Rightarrow> ustring" where
  "memory_instruction response_hint memory_context =
     (if response_hint \<noteq> [] then []
      else if memory_context \<noteq> [] then memory_instruction_text
      else [])"

definition input_words :: "ustring \<Rightarrow> nat" where
  "input_words user_message = length (split user_message)"

definition length_30 :: ustring where
  "length_30 = (u ''Keep your response to 1-2 sentences maximum (under 30 words).'')"

definition length_50 :: ustring where
  "length_50 = (u ''Keep your response to 2-3 sentences (under 50 words).'')"

definition length_80 :: ustring where
  "length_80 = (u ''Keep your response concise (under 80 words).'')"

definition length_instruction :: "ustring \<Rightarrow> ustring" where
  "length_instruction user_message =
     (if input_words user_message < 15 then length_30
      else if input_words user_message < 30 then length_50
      else length_80)"

definition format_directive :: ustring where
  "format_directive =
     (u '' Write as if texting - use natural conversational language without asterisks, underscores, quotation marks for emphasis, or any special formatting. Output should be plain text ready to copy and paste directly into a chat.'')"

definition stance_instruction :: "ustring \<Rightarrow> ustring \<Rightarrow> ustring \<Rightarrow> ustring \<Rightarrow> ustring" where
  "stance_instruction user_message stance response_hint memory_context =
     (if response_hint \<noteq> []
      then length_instruction user_message @ format_directive
      else (u ''Your response MUST '') @ upper stance @ (u '' with the user's message. '')
           @ length_instruction user_message @ format_directive @ (u '' '')
           @ memory_instruction response_hint memory_context)"

definition system_prompt :: "ustring \<Rightarrow> ustring \<Rightarrow> ustring \<Rightarrow> ustring \<Rightarrow> ustring \<Rightarrow> ustring" where
  "system_prompt system_instruction user_message stance response_hint memory_context =
     system_instruction @ (u '' '') @ stance_instruction user_message stance response_hint memory_context"

section \<open>Generation client\<close>

text \<open>
  The substitution \<open>re.sub(r'\s"([^"]{1,30})"\s', r' \1 ', text)\<close>. A match at the
  head of the text is one whitespace, a quote, one to thirty characters that are not
  quotes, a quote and one whitespace; since the run cannot contain a quote, it is the
  whole stretch up to the next quote. \<open>quoted_match\<close> gives the run and the text after
  the match.
\<close>

definition quoted_match :: "ustring \<Rightarrow> (ustring \<times> ustring) option" where
  "quoted_match s =
     (case s of
        w # q # t \<Rightarrow>
          if is_space w \<and> q = double_quote
          then (let run = takeWhile (\<lambda>c. c \<noteq> double_quote) t;
                    after = dropWhile (\<lambda>c. c \<noteq> double_quote) t
                in if 1 \<le> length run \<and> length run \<le> 30
                   then (case after of
                           q2 # w2 # rest \<Rightarrow> if is_space w2 then Some (run, rest) else None
                         | _ \<Rightarrow> None)
                   else None)
          else None
      | _ \<Rightarrow> None)"

lemma quoted_match_shorter:
  assumes "quoted_match s = Some (run, rest)"
  shows "length rest < length s"
proof -
  from assms obtain w q t q2 w2 where s: "s = w # q # t"
    and after: "dropWhile (\<lambda>c. c \<noteq> double_quote) t = q2 # w2 # rest"
    by (auto simp: quoted_match_def Let_def split: list.splits if_splits)
  have "length (dropWhile (\<lambda>c. c \<noteq> double_quote) t) \<le> length t"
    by (rule length_dropWhile_le)
  with after s show ?thesis by simp
qed

text \<open>
  \<open>re.sub\<close> scans from the left, replaces a match and goes on behind it, and copies one
  character where there is no match.
\<close>

function re_sub_quotes :: "ustring \<Rightarrow> ustring" where
  "re_sub_quotes [] = []"
| "re_sub_quotes (c # cs) =
     (case quoted_match (c # cs) of
        Some (run, rest) \<Rightarrow> (u '' '') @ run @ (u '' '') @ re_sub_quotes rest
      | None \<Rightarrow> c # re_sub_quotes cs)"
  by pat_completeness auto
termination
  by (relation "measure length") (auto dest: quoted_match_shorter)

text \<open>The three cleaning steps applied to a non-empty generated text.\<close>

definition clean_text :: "ustring \<Rightarrow> ustring" where
  "clean_text generated_text =
     re_sub_quotes (remove_char ((uc (CHR ''_''))) (remove_char ((uc (CHR ''*''))) (strip generated_text)))"

datatype reply_result =
  Success ustring ustring
| Failure ustring

text \<open>The \<open>try\<close> block of \<open>generate_reply\<close> after the request has been made.\<close>

definition read_response :: "ustring \<Rightarrow> upstream \<Rightarrow> reply_result" where
  "read_response persona_name up =
     (case up of
        Raised msg \<Rightarrow> Failure ((u ''Generation Error: '') @ msg)
      | Returned d \<Rightarrow>
         (case data_candidates d of
            None \<Rightarrow> Failure (u ''No candidates in response.'')
          | Some [] \<Rightarrow> Failure (u ''No candidates in response.'')
          | Some (candidate # _) \<Rightarrow>
             (let finish_reason =
                    (case cand_finishReason candidate of None \<Rightarrow> (u ''UNKNOWN'') | Some r \<Rightarrow> r);
                  parts =
                    (case cand_content candidate of
                       None \<Rightarrow> []
                     | Some c \<Rightarrow> (case content_parts c of None \<Rightarrow> [] | Some ps \<Rightarrow> ps));
                  generated_text =
                    (case parts of
                       [] \<Rightarrow> []
                     | p # _ \<Rightarrow> (case part_text p of None \<Rightarrow> [] | Some t \<Rightarrow> t))
              in if generated_text \<noteq> [] then Success (clean_text generated_text) persona_name
                 else if finish_reason = (u ''MAX_TOKENS'') then Failure (u ''Response cut off (MAX_TOKENS).'')
                 else if finish_reason = (u ''SAFETY'') then Failure (u ''Response blocked by safety filters.'')
                 else Failure ((u ''No text generated. Reason: '') @ finish_reason))))"

text \<open>
  What one run of \<open>generate_reply\<close> did: the similarity queries it issued, the payload it
  sent and the dictionary it returned.
\<close>

record reply_outcome =
  gr_queries :: "query_call list"
  gr_payload :: payload
  gr_result :: reply_result

definition generate_reply ::
  "env \<Rightarrow> app_state \<Rightarrow> ustring \<Rightarrow> ustring \<Rightarrow> ustring \<Rightarrow> ustring \<Rightarrow> ustring \<Rightarrow> py_error + reply_outcome" where
  "generate_reply e s persona_name user_message stance chat_id response_hint =
     (case PERSONAS persona_name of
        None \<Rightarrow> Inl (KeyError persona_name)
      | Some system_instruction \<Rightarrow>
         (case retrieve_relevant_context_rag e s chat_id user_message 3 of
            Inl err \<Rightarrow> Inl err
          | Inr (calls, memory_context) \<Rightarrow>
             (let p = \<lparr> pl_contents =
                          user_message_with_context user_message response_hint memory_context,
                        pl_system_instruction =
                          system_prompt system_instruction user_message stance response_hint
                            memory_context \<rparr>
              in Inr \<lparr> gr_queries = calls, gr_payload = p,
                       gr_result = read_response persona_name (requests_post e p) \<rparr>)))"

section \<open>The generate route\<close>

text \<open>
  The JSON body of \<open>POST /generate\<close>: every field may be absent; a field that is
  present holds a string.
\<close>

record request_body =
  req_message :: "ustring option"
  req_persona :: "ustring option"
  req_stance :: "ustring option"
  req_chat_id :: "ustring option"
  req_response_hint :: "ustring option"

text \<open>\<open>data.get(key, default)\<close>\<close>

definition get_or :: "ustring option \<Rightarrow> ustring \<Rightarrow> ustring" where
  "get_or field dflt = (case field of None \<Rightarrow> dflt | Some v \<Rightarrow> v)"

record http_response =
  status :: nat
  body :: reply_result

text \<open>
  \<open>generate_single_reply\<close>: the response and the state it leaves. An exception inside
  the route's \<open>try\<close> block becomes a 500 response.
\<close>

definition str_error :: "py_error \<Rightarrow> ustring" where
  "str_error err = (case err of KeyError k \<Rightarrow> [single_quote] @ k @ [single_quote] | IndexError \<Rightarrow> (u ''list index out of range''))"

definition generate_single_reply ::
  "env \<Rightarrow> app_state \<Rightarrow> ustring \<Rightarrow> request_body \<Rightarrow> http_response \<times> app_state" where
  "generate_single_reply e s now data =
     (if gemini_api_key e = [] then (\<lparr> status = 500, body = Failure (u ''API key missing'') \<rparr>, s)
      else
        (let user_message = strip (get_or (req_message data) []);
             persona_name = get_or (req_persona data) [];
             stance = get_or (req_stance data) (u ''Agree'');
             chat_id = get_or (req_chat_id data) (u ''Timo'');
             response_hint = strip (get_or (req_response_hint data) [])
         in if user_message = [] then (\<lparr> status = 400, body = Failure (u ''Message is required'') \<rparr>, s)
            else if PERSONAS persona_name = None
            then (\<lparr> status = 400, body = Failure (u ''Invalid persona'') \<rparr>, s)
            else if chat_collections s chat_id = None
            then (\<lparr> status = 400, body = Failure (u ''Invalid chat ID'') \<rparr>, s)
            else
              (case generate_reply e s persona_name user_message stance chat_id response_hint of
                 Inl err \<Rightarrow> (\<lparr> status = 500, body = Failure (str_error err) \<rparr>, s)
               | Inr out \<Rightarrow>
                  (case gr_result out of
                     Failure msg \<Rightarrow> (\<lparr> status = 200, body = Failure msg \<rparr>, s)
                   | Success reply persona \<Rightarrow>
                      (case store_conversation_rag s now chat_id user_message persona_name stance reply of
                         Inl err \<Rightarrow> (\<lparr> status = 500, body = Failure (str_error err) \<rparr>, s)
                       | Inr s' \<Rightarrow> (\<lparr> status = 200, body = Success reply persona \<rparr>, s'))))))"

section \<open>Sequences of stores and reachable states\<close>

text \<open>One generation to be stored: timestamp, user message, persona, stance, reply.\<close>

type_synonym exchange = "ustring \<times> ustring \<times> ustring \<times> ustring \<times> ustring"

text \<open>The entry that \<open>store_conversation_rag\<close> adds when the counter has reached \<open>n\<close>.\<close>

fun new_record :: "ustring \<Rightarrow> nat \<Rightarrow> exchange \<Rightarrow> conv_record" where
  "new_record chat_id n (now, user_message, persona, stance, response) =
     \<lparr> rec_id = conv_id chat_id n, rec_document = user_message,
       rec_metadata = \<lparr> md_response = response, md_persona = persona,
                        md_stance = stance, md_timestamp = now \<rparr> \<rparr>"

text \<open>\<open>store_conversation_rag\<close> applied to one exchange.\<close>

fun store_exchange :: "app_state \<Rightarrow> ustring \<Rightarrow> exchange \<Rightarrow> py_error + app_state" where
  "store_exchange s chat_id (now, user_message, persona, stance, response) =
     store_conversation_rag s now chat_id user_message persona stance response"

text \<open>
  The records that exchanges stored one after the other get, when the counter stands
  at \<open>k\<close> before the first of them.
\<close>

fun records_from :: "ustring \<Rightarrow> nat \<Rightarrow> exchange list \<Rightarrow> conv_record list" where
  "records_from chat_id k [] = []"
| "records_from chat_id k (x # xs) = new_record chat_id (k + 1) x # records_from chat_id (k + 1) xs"

text \<open>The sequence number that an id \<open>{chat_id}_{n}\<close> carries.\<close>

definition seq_number :: "ustring \<Rightarrow> conv_record \<Rightarrow> nat" where
  "seq_number chat_id r = nat_of_str (drop (length chat_id + 1) (rec_id r))"

text \<open>
  The ids of a collection are minted from strictly increasing sequence numbers, none
  above the counter.
\<close>

definition ids_in_order :: "ustring \<Rightarrow> nat \<Rightarrow> collection \<Rightarrow> bool" where
  "ids_in_order chat_id n col =
     (list_all (\<lambda>r. rec_id r = conv_id chat_id (seq_number chat_id r) \<and> seq_number chat_id r \<le> n) col
      \<and> sorted_wrt (<) (map (seq_number chat_id) col))"

text \<open>Every chat of a state has its ids in order.\<close>

definition state_in_order :: "app_state \<Rightarrow> bool" where
  "state_in_order s =
     (\<forall>c col n. chat_collections s c = Some col \<longrightarrow> conversation_counter s c = Some n
        \<longrightarrow> ids_in_order c n col)"

text \<open>
  The states the service can be in: the initial one, and those left by the generate
  route, by the memory writer and by the clear route.
\<close>

inductive reachable :: "app_state \<Rightarrow> bool" where
  initial: "reachable init_state"
| stored: "reachable s \<Longrightarrow> store_exchange s chat_id x = Inr s' \<Longrightarrow> reachable s'"
| cleared: "reachable s \<Longrightarrow> reachable (snd (clear_memory s chat_id))"
| generated: "reachable s \<Longrightarrow> reachable (snd (generate_single_reply e s now data))"

text \<open>
  One call of the generate route: the environment at the time of the call, the timestamp
  and the request body.
\<close>

type_synonym generation = "env \<times> ustring \<times> request_body"

fun route :: "app_state \<Rightarrow> generation \<Rightarrow> http_response \<times> app_state" where
  "route s (e, now, data) = generate_single_reply e s now data"

text \<open>
  A sequence of calls of the generate route, each on the state the one before has left:
  the responses and the final state.
\<close>

fun generate_all :: "app_state \<Rightarrow> generation list \<Rightarrow> http_response list \<times> app_state" where
  "generate_all s [] = ([], s)"
| "generate_all s (g # gs) =
     (fst (route s g) # fst (generate_all (snd (route s g)) gs),
      snd (generate_all (snd (route s g)) gs))"

text \<open>
  What a call has stored into a chat, read off its request and its response: one
  exchange when the response reports success and the request was for that chat, nothing
  otherwise.
\<close>

fun stored_by :: "ustring \<Rightarrow> generation \<Rightarrow> http_response \<Rightarrow> exchange list" where
  "stored_by chat_id (e, now, data) r =
     (case body r of
        Success reply persona \<Rightarrow>
          if get_or (req_chat_id data) (u ''Timo'') = chat_id
          then [(now, strip (get_or (req_message data) []), get_or (req_persona data) [],
                 get_or (req_stance data) (u ''Agree''), reply)]
          else []
      | Failure msg \<Rightarrow> [])"

text \<open>The exchanges a sequence of calls has stored into a chat, in order.\<close>

fun stored_exchanges :: "ustring \<Rightarrow> generation list \<Rightarrow> http_response list \<Rightarrow> exchange list" where
  "stored_exchanges chat_id (g # gs) (r # rs) = stored_by chat_id g r @ stored_exchanges chat_id gs rs"
| "stored_exchanges chat_id gs rs = []"

text \<open>A call for the chat whose response reports success.\<close>

fun succeeded_for :: "ustring \<Rightarrow> generation \<times> http_response \<Rightarrow> bool" where
  "succeeded_for chat_id ((e, now, data), r) =
     (get_or (req_chat_id data) (u ''Timo'') = chat_id
      \<and> (case body r of Success reply persona \<Rightarrow> True | Failure msg \<Rightarrow> False))"

section \<open>Example values\<close>

text \<open>An exchange and a state with one stored record, for the concrete instances below.\<close>

definition example_exchange :: exchange where
  "example_exchange =
     ((u ''2024-01-01T00:00:00''), (u ''Is pineapple on pizza good?''), (u ''The Rebel''), (u ''Disagree''), (u ''No way.''))"

definition example_state :: app_state where
  "example_state =
     init_state \<lparr> chat_collections :=
                    (chat_collections init_state)((u ''Timo'') \<mapsto> [new_record (u ''Timo'') 1 example_exchange]),
                  conversation_counter := (conversation_counter init_state)((u ''Timo'') \<mapsto> 1) \<rparr>"

text \<open>
  A response whose only candidate was stopped by the safety filter and has no parts, and
  an environment whose generation API always answers with it and whose similarity search
  returns the first \<open>n\<close> entries.
\<close>

definition blocked_data :: api_data where
  "blocked_data =
     \<lparr> data_candidates =
         Some [\<lparr> cand_finishReason = Some (u ''SAFETY''),
                 cand_content = Some \<lparr> content_parts = Some [] \<rparr> \<rparr>] \<rparr>"

definition example_env :: env where
  "example_env =
     \<lparr> gemini_api_key = (u ''secret''),
       collection_query =
         (\<lambda>col q n. QueryResults [map rec_document (take n col)] [map rec_metadata (take n col)]),
       requests_post = (\<lambda>p. Returned blocked_data) \<rparr>"

text \<open>A message of \<open>n\<close> words.\<close>

definition words :: "nat \<Rightarrow> ustring" where
  "words n = concat (replicate n (u ''word ''))"

text \<open>Two request bodies: one with every field but the draft, one with message and persona only.\<close>

definition pizza_request :: request_body where
  "pizza_request =
     \<lparr> req_message = Some (u ''Is pineapple on pizza good?''), req_persona = Some (u ''The Rebel''),
       req_stance = Some (u ''Disagree''), req_chat_id = Some (u ''Timo''), req_response_hint = None \<rparr>"

definition minimal_request :: request_body where
  "minimal_request =
     \<lparr> req_message = Some (u ''Is pineapple on pizza good?''), req_persona = Some (u ''The Rebel''),
       req_stance = None, req_chat_id = None, req_response_hint = None \<rparr>"

text \<open>
  A response with one candidate and one text part, an environment whose generation API
  always answers with it, a call of the route in that environment and the exchange it
  stores.
\<close>

definition sure_data :: api_data where
  "sure_data =
     \<lparr> data_candidates =
         Some [\<lparr> cand_finishReason = Some (u ''STOP''),
                 cand_content =
                   Some \<lparr> content_parts = Some [\<lparr> part_text = Some (u ''**Sure** thing'') \<rparr>] \<rparr> \<rparr>] \<rparr>"

definition friendly_env :: env where
  "friendly_env =
     \<lparr> gemini_api_key = u ''secret'',
       collection_query =
         (\<lambda>col q n. QueryResults [map rec_document (take n col)] [map rec_metadata (take n col)]),
       requests_post = (\<lambda>p. Returned sure_data) \<rparr>"

definition pizza_generation :: generation where
  "pizza_generation = (friendly_env, u ''2024-01-02T00:00:00'', pizza_request)"

definition pizza_exchange :: exchange where
  "pizza_exchange =
     (u ''2024-01-02T00:00:00'', u ''Is pineapple on pizza good?'', u ''The Rebel'', u ''Disagree'',
      u ''Sure thing'')"

section \<open>Lemmas on strings and collections\<close>

lemma nat_of_str_snoc: "nat_of_str (s @ [c]) = 10 * nat_of_str s + digit_val c"
  by (simp add: nat_of_str_def)

lemma digit_val_digit: "d < 10 \<Longrightarrow> digit_val (digit d) = d"
proof -
  assume "d < 10"
  then have "d \<in> {0, 1, 2, 3, 4, 5, 6, 7, 8, 9}" by auto
  then show ?thesis
    by (auto simp: digit_val_def digit_def)
qed

lemma nat_of_str_str_nat: "nat_of_str (str_nat n) = n"
proof (induction n rule: str_nat.induct)
  case (1 n)
  show ?case
  proof (cases "n < 10")
    case True
    then show ?thesis
      by (subst str_nat.simps) (simp add: nat_of_str_def digit_val_digit)
  next
    case False
    with 1 have "nat_of_str (str_nat (n div 10)) = n div 10" by simp
    with False show ?thesis
      by (subst str_nat.simps) (simp add: nat_of_str_snoc digit_val_digit)
  qed
qed

lemma str_nat_inj: "str_nat m = str_nat n \<Longrightarrow> m = n"
  by (metis nat_of_str_str_nat)

lemma conv_id_inj: "conv_id c m = conv_id c n \<longleftrightarrow> m = n"
  by (auto simp: conv_id_def dest: str_nat_inj)

lemma delete_take_drop:
  "distinct (map rec_id ys) \<Longrightarrow>
   collection_delete ys (take n (collection_get_ids ys)) = drop n ys"
proof (induction ys arbitrary: n)
  case Nil
  then show ?case by (simp add: collection_delete_def collection_get_ids_def)
next
  case (Cons y ys)
  show ?case
  proof (cases n)
    case 0
    then show ?thesis by (simp add: collection_delete_def collection_get_ids_def)
  next
    case (Suc m)
    have notin: "rec_id y \<notin> rec_id ` set ys" using Cons.prems by simp
    have "filter (\<lambda>r. rec_id r \<notin> insert (rec_id y) (set (take m (map rec_id ys)))) ys
        = filter (\<lambda>r. rec_id r \<notin> set (take m (map rec_id ys))) ys"
    proof (rule filter_cong)
      fix r assume "r \<in> set ys"
      with notin have "rec_id r \<noteq> rec_id y" by (metis imageI)
      then show "(rec_id r \<notin> insert (rec_id y) (set (take m (map rec_id ys))))
               = (rec_id r \<notin> set (take m (map rec_id ys)))" by simp
    qed simp
    also have "\<dots> = drop m ys"
      using Cons.IH[of m] Cons.prems by (simp add: collection_delete_def collection_get_ids_def)
    finally show ?thesis using Suc
      by (simp add: collection_delete_def collection_get_ids_def)
  qed
qed

lemma rec_id_new_record [simp]: "rec_id (new_record c n x) = conv_id c n"
  by (cases x) simp

lemma store_step:
  assumes col: "chat_collections s c = Some col"
    and cnt: "conversation_counter s c = Some k"
    and dist: "distinct (map rec_id (col @ [new_record c (k + 1) x]))"
  shows "store_exchange s c x =
           Inr (s \<lparr> chat_collections := (chat_collections s)
                      (c \<mapsto> drop (length col + 1 - 20) (col @ [new_record c (k + 1) x])),
                    conversation_counter := (conversation_counter s)(c \<mapsto> k + 1) \<rparr>)"
proof -
  obtain now m p st r where x: "x = (now, m, p, st, r)" by (cases x) auto
  let ?r = "new_record c (k + 1) x"
  have del: "collection_delete (col @ [?r]) (take n (collection_get_ids (col @ [?r]))) = drop n (col @ [?r])" for n
    using dist by (rule delete_take_drop)
  have nr: "\<lparr> rec_id = conv_id c (Suc k), rec_document = m,
       rec_metadata = \<lparr> md_response = r, md_persona = p,
                        md_stance = st, md_timestamp = now \<rparr> \<rparr> = ?r"
    by (simp add: x)
  show ?thesis
  proof (cases "length col + 1 > 20")
    case True
    then show ?thesis using col cnt del[of "length col + 1 - 20"]
      by (simp add: x store_conversation_rag_def Let_def collection_add_def collection_count_def nr del: new_record.simps)
  next
    case False
    then show ?thesis using col cnt
      by (simp add: x store_conversation_rag_def Let_def collection_add_def collection_count_def)
  qed
qed

lemma drop_drop_append:
  "n \<le> length ys \<Longrightarrow> drop m (drop n ys @ zs) = drop (m + n) (ys @ zs)"
  by (simp add: add.commute)

lemma map_rec_id_records_from:
  "map rec_id (records_from c k xs) = map (conv_id c) [k + 1 ..< k + 1 + length xs]"
proof (induction xs arbitrary: k)
  case Nil
  then show ?case by simp
next
  case (Cons x xs)
  have "[k + 1 ..< k + 1 + length (x # xs)] = (k + 1) # [k + 1 + 1 ..< k + 1 + 1 + length xs]"
    by (simp add: upt_rec)
  then show ?case using Cons.IH[of "k + 1"] by (simp del: new_record.simps)
qed

lemma distinct_records_from: "distinct (map rec_id (records_from c k xs))"
  unfolding map_rec_id_records_from
  by (simp add: distinct_map inj_on_def conv_id_inj)

lemma length_records_from [simp]: "length (records_from c k xs) = length xs"
  by (induction xs arbitrary: k) auto

section \<open>Lemmas on the memory writer\<close>

lemma seq_number_new_record [simp]: "seq_number c (new_record c n x) = n"
  by (cases x) (simp add: seq_number_def conv_id_def nat_of_str_str_nat)

lemma ids_in_order_distinct:
  assumes "ids_in_order c n col"
  shows "distinct (map rec_id col)"
proof -
  from assms have ids: "map rec_id col = map (conv_id c) (map (seq_number c) col)"
    by (auto simp: ids_in_order_def list_all_iff)
  from assms have "distinct (map (seq_number c) col)"
    by (simp add: ids_in_order_def strict_sorted_iff)
  then have "distinct (map (conv_id c) (map (seq_number c) col))"
    by (simp add: distinct_map inj_on_def conv_id_inj del: map_map)
  then show ?thesis unfolding ids .
qed

lemma ids_in_order_snoc:
  assumes "ids_in_order c n col"
  shows "ids_in_order c (n + 1) (col @ [new_record c (n + 1) x])"
  using assms
  by (auto simp: ids_in_order_def list_all_iff sorted_wrt_append le_imp_less_Suc simp del: new_record.simps)

lemma ids_in_order_drop:
  assumes "ids_in_order c n col"
  shows "ids_in_order c n (drop m col)"
proof -
  have "set (drop m col) \<subseteq> set col" by (rule set_drop_subset)
  moreover have "sorted_wrt (<) (drop m (map (seq_number c) col))"
    using assms by (simp add: ids_in_order_def)
  ultimately show ?thesis
    using assms by (auto simp: ids_in_order_def list_all_iff drop_map)
qed

lemma store_in_order:
  assumes col: "chat_collections s c = Some col"
    and cnt: "conversation_counter s c = Some n"
    and ord: "ids_in_order c n col"
  shows "store_exchange s c x =
           Inr (s \<lparr> chat_collections := (chat_collections s)
                      (c \<mapsto> drop (length col + 1 - 20) (col @ [new_record c (n + 1) x])),
                    conversation_counter := (conversation_counter s)(c \<mapsto> n + 1) \<rparr>)"
proof -
  have "distinct (map rec_id (col @ [new_record c (n + 1) x]))"
    using ids_in_order_snoc[OF ord] by (rule ids_in_order_distinct)
  with col cnt show ?thesis by (rule store_step)
qed

lemma store_exchange_cases:
  assumes "store_exchange s c x = Inr s'"
  obtains col n where "chat_collections s c = Some col" "conversation_counter s c = Some n"
  using assms
  by (cases x) (auto simp: store_conversation_rag_def split: option.splits)

lemma state_in_order_store:
  assumes inv: "state_in_order s" and st: "store_exchange s c x = Inr s'"
  shows "state_in_order s'"
proof -
  from st obtain col n where col: "chat_collections s c = Some col"
    and cnt: "conversation_counter s c = Some n"
    by (rule store_exchange_cases)
  from inv col cnt have ord: "ids_in_order c n col"
    by (simp add: state_in_order_def)
  have new: "ids_in_order c (n + 1) (drop (length col + 1 - 20) (col @ [new_record c (n + 1) x]))"
    using ord by (intro ids_in_order_drop ids_in_order_snoc)
  from st store_in_order[OF col cnt ord, of x]
  have s': "s' = s \<lparr> chat_collections := (chat_collections s)
                      (c \<mapsto> drop (length col + 1 - 20) (col @ [new_record c (n + 1) x])),
                    conversation_counter := (conversation_counter s)(c \<mapsto> n + 1) \<rparr>"
    by simp
  show ?thesis
    unfolding state_in_order_def
  proof (intro allI impI)
    fix d cold m
    assume a: "chat_collections s' d = Some cold" "conversation_counter s' d = Some m"
    show "ids_in_order d m cold"
    proof (cases "d = c")
      case True
      with a s' new show ?thesis by simp
    next
      case False
      with a s' inv show ?thesis by (simp add: state_in_order_def)
    qed
  qed
qed

lemma delete_all: "collection_delete col (collection_get_ids col) = []"
  by (simp add: collection_delete_def collection_get_ids_def)

lemma clear_memory_known:
  assumes "chat_collections s c = Some col"
  shows "clear_memory s c =
           ((200, True),
            s \<lparr> chat_collections := (chat_collections s)(c \<mapsto> []),
                conversation_counter := (conversation_counter s)(c \<mapsto> 0) \<rparr>)"
proof (cases "col = []")
  case True
  with assms show ?thesis
    by (simp add: clear_memory_def collection_get_ids_def)
next
  case False
  then have "collection_get_ids col \<noteq> []" by (simp add: collection_get_ids_def)
  with assms show ?thesis
    by (simp add: clear_memory_def Let_def delete_all)
qed

lemma clear_memory_unknown:
  assumes "chat_collections s c = None"
  shows "clear_memory s c = ((400, False), s)"
  using assms by (simp add: clear_memory_def)

lemma state_in_order_clear:
  assumes "state_in_order s"
  shows "state_in_order (snd (clear_memory s c))"
proof (cases "chat_collections s c")
  case None
  with assms show ?thesis by (simp add: clear_memory_unknown)
next
  case (Some col)
  with assms show ?thesis
    by (auto simp: clear_memory_known state_in_order_def ids_in_order_def)
qed

lemma generate_single_reply_state:
  "snd (generate_single_reply e s now data) = s
   \<or> (\<exists>c x. store_exchange s c x = Inr (snd (generate_single_reply e s now data)))"
proof -
  have "store_conversation_rag s now c m p st r = Inr s' \<Longrightarrow>
        \<exists>c x. store_exchange s c x = Inr s'" for c m p st r s'
    by (rule exI[of _ c], rule exI[of _ "(now, m, p, st, r)"]) simp
  then show ?thesis
    by (auto simp: generate_single_reply_def Let_def split: sum.splits reply_result.splits)
qed

lemma state_in_order_init: "state_in_order init_state"
  by (simp add: state_in_order_def init_state_def ids_in_order_def)

lemma reachable_in_order: "reachable s \<Longrightarrow> state_in_order s"
proof (induction rule: reachable.induct)
  case initial
  show ?case by (rule state_in_order_init)
next
  case (stored s chat_id x s')
  then show ?case by (blast intro: state_in_order_store)
next
  case (cleared s chat_id)
  from cleared.IH show ?case by (rule state_in_order_clear)
next
  case (generated s e now data)
  from generate_single_reply_state[of e s now data] generated.IH show ?case
    by (metis state_in_order_store)
qed

lemma example_state_reachable: "reachable example_state"
proof -
  have "store_exchange init_state (u ''Timo'') example_exchange = Inr example_state"
    by (simp add: example_exchange_def example_state_def init_state_def store_conversation_rag_def
        collection_add_def collection_count_def)
  with reachable.initial show ?thesis by (rule reachable.stored)
qed

lemma last_drop_snoc: "m \<le> length col \<Longrightarrow> last (drop m (col @ [r])) = r"
  by simp

section \<open>Memory claims\<close>

text \<open>
  C8: clearing a known chat answers 200 with success, leaves the chat's collection empty
  and its counter at zero, and the next store into that chat succeeds and leaves the
  single record with id \<open>{chat_id}_1\<close> and the counter at one.
\<close>

theorem clear_memory_resets:
  assumes "chat_collections s chat_id = Some col"
  shows "fst (clear_memory s chat_id) = (200, True)
     \<and> chat_collections (snd (clear_memory s chat_id)) chat_id = Some []
     \<and> conversation_counter (snd (clear_memory s chat_id)) chat_id = Some 0
     \<and> (\<exists>s'. store_exchange (snd (clear_memory s chat_id)) chat_id x = Inr s'
            \<and> chat_collections s' chat_id = Some [new_record chat_id 1 x]
            \<and> rec_id (new_record chat_id 1 x) = chat_id @ (u ''_1'')
            \<and> conversation_counter s' chat_id = Some 1)"
proof -
  let ?s1 = "snd (clear_memory s chat_id)"
  have cl: "clear_memory s chat_id = ((200, True),
            s \<lparr> chat_collections := (chat_collections s)(chat_id \<mapsto> []),
                conversation_counter := (conversation_counter s)(chat_id \<mapsto> 0) \<rparr>)"
    using assms by (rule clear_memory_known)
  have c1: "chat_collections ?s1 chat_id = Some []"
    and n1: "conversation_counter ?s1 chat_id = Some 0"
    by (simp_all add: cl)
  have "ids_in_order chat_id 0 []" by (simp add: ids_in_order_def)
  from store_in_order[OF c1 n1 this, of x]
  have "store_exchange ?s1 chat_id x =
          Inr (?s1 \<lparr> chat_collections := (chat_collections ?s1)(chat_id \<mapsto> [new_record chat_id 1 x]),
                     conversation_counter := (conversation_counter ?s1)(chat_id \<mapsto> 1) \<rparr>)"
    by simp
  moreover have "rec_id (new_record chat_id 1 x) = chat_id @ (u ''_1'')"
    by (simp add: u_def uc_def conv_id_def str_nat.simps digit_def)
  ultimately show ?thesis using c1 n1 cl by simp
qed

theorem clear_memory_resets_witness:
  "chat_collections example_state (u ''Timo'') = Some [new_record (u ''Timo'') 1 example_exchange]
   \<and> fst (clear_memory example_state (u ''Timo'')) = (200, True)
   \<and> chat_collections (snd (clear_memory example_state (u ''Timo''))) (u ''Timo'') = Some []
   \<and> conversation_counter (snd (clear_memory example_state (u ''Timo''))) (u ''Timo'') = Some 0
   \<and> (\<exists>s'. store_exchange (snd (clear_memory example_state (u ''Timo''))) (u ''Timo'') example_exchange = Inr s'
          \<and> map rec_id (the (chat_collections s' (u ''Timo''))) = [(u ''Timo_1'')]
          \<and> conversation_counter s' (u ''Timo'') = Some 1)"
proof -
  have h: "chat_collections example_state (u ''Timo'') = Some [new_record (u ''Timo'') 1 example_exchange]"
    by (simp add: example_state_def)
  from clear_memory_resets[OF h, of example_exchange] h show ?thesis
    by (auto simp: u_def uc_def simp del: new_record.simps)
qed

text \<open>
  C9: in every reachable state the ids of a chat's records are pairwise distinct, each
  id is \<open>{chat_id}_{n}\<close> for its sequence number \<open>n\<close>, and the sequence numbers increase
  strictly in insertion order. A store first raises the counter to \<open>n + 1\<close> and gives
  the new record, which ends up last, the id \<open>{chat_id}_{n + 1}\<close>; the ids are distinct
  and increasing afterwards too.
\<close>

theorem conversation_ids_increase:
  assumes "reachable s" and "chat_collections s chat_id = Some col"
    and "conversation_counter s chat_id = Some n"
  shows "distinct (map rec_id col)
     \<and> sorted_wrt (<) (map (seq_number chat_id) col)
     \<and> list_all (\<lambda>r. rec_id r = chat_id @ (u ''_'') @ str_nat (seq_number chat_id r)) col
     \<and> (\<exists>s' col'. store_exchange s chat_id x = Inr s'
            \<and> conversation_counter s' chat_id = Some (n + 1)
            \<and> chat_collections s' chat_id = Some col'
            \<and> col' = drop (length col + 1 - 20) (col @ [new_record chat_id (n + 1) x])
            \<and> rec_id (last col') = chat_id @ (u ''_'') @ str_nat (n + 1)
            \<and> distinct (map rec_id col')
            \<and> sorted_wrt (<) (map (seq_number chat_id) col'))"
proof -
  from assms have ord: "ids_in_order chat_id n col"
    using reachable_in_order by (simp add: state_in_order_def)
  let ?col' = "drop (length col + 1 - 20) (col @ [new_record chat_id (n + 1) x])"
  have ord': "ids_in_order chat_id (n + 1) ?col'"
    using ord by (intro ids_in_order_drop ids_in_order_snoc)
  have "last ?col' = new_record chat_id (n + 1) x"
    by (rule last_drop_snoc) simp
  then have lastid: "rec_id (last ?col') = chat_id @ (u ''_'') @ str_nat (n + 1)"
    by (simp add: conv_id_def)
  have a: "distinct (map rec_id col)" using ord by (rule ids_in_order_distinct)
  have b: "sorted_wrt (<) (map (seq_number chat_id) col)"
    and c: "list_all (\<lambda>r. rec_id r = chat_id @ (u ''_'') @ str_nat (seq_number chat_id r)) col"
    using ord by (simp_all add: ids_in_order_def conv_id_def list_all_iff)
  have a': "distinct (map rec_id ?col')" using ord' by (rule ids_in_order_distinct)
  have b': "sorted_wrt (<) (map (seq_number chat_id) ?col')"
    using ord' by (simp add: ids_in_order_def)
  have st: "store_exchange s chat_id x =
           Inr (s \<lparr> chat_collections := (chat_collections s)(chat_id \<mapsto> ?col'),
                    conversation_counter := (conversation_counter s)(chat_id \<mapsto> n + 1) \<rparr>)"
    using assms(2,3) ord by (rule store_in_order)
  show ?thesis
    using a b c a' b' lastid st by simp
qed

theorem conversation_ids_increase_witness:
  "reachable example_state
   \<and> chat_collections example_state (u ''Timo'') = Some [new_record (u ''Timo'') 1 example_exchange]
   \<and> conversation_counter example_state (u ''Timo'') = Some 1
   \<and> (\<exists>s' col'. store_exchange example_state (u ''Timo'') example_exchange = Inr s'
          \<and> conversation_counter s' (u ''Timo'') = Some 2
          \<and> chat_collections s' (u ''Timo'') = Some col'
          \<and> map rec_id col' = [(u ''Timo_1''), (u ''Timo_2'')]
          \<and> distinct (map rec_id col'))"
proof -
  have h2: "chat_collections example_state (u ''Timo'') = Some [new_record (u ''Timo'') 1 example_exchange]"
    and h3: "conversation_counter example_state (u ''Timo'') = Some 1"
    by (simp_all add: example_state_def)
  have ids: "map rec_id (drop (length [new_record (u ''Timo'') 1 example_exchange] + 1 - 20)
               ([new_record (u ''Timo'') 1 example_exchange] @ [new_record (u ''Timo'') (1 + 1) example_exchange]))
             = [(u ''Timo_1''), (u ''Timo_2'')]"
    by (simp add: u_def uc_def conv_id_def str_nat.simps digit_def)
  from conversation_ids_increase[OF example_state_reachable h2 h3, of example_exchange]
  obtain s' col' where "store_exchange example_state (u ''Timo'') example_exchange = Inr s'"
     "conversation_counter s' (u ''Timo'') = Some (1 + 1)"
     "chat_collections s' (u ''Timo'') = Some col'"
     "col' = drop (length [new_record (u ''Timo'') 1 example_exchange] + 1 - 20)
               ([new_record (u ''Timo'') 1 example_exchange] @ [new_record (u ''Timo'') (1 + 1) example_exchange])"
     "distinct (map rec_id col')"
    by blast
  with ids example_state_reachable h2 h3 show ?thesis
    by (simp del: new_record.simps)
qed

section \<open>Lemmas on retrieval and prompt composition\<close>

lemma retrieve_known:
  assumes "chat_collections s c = Some col"
  shows "retrieve_relevant_context_rag e s c m k =
           Inr (if col = [] then [] else [(c, m, min k (length col))], retrieved_context e col m k)"
  using assms
  by (simp add: retrieve_relevant_context_rag_def retrieved_context_def collection_count_def Let_def
      split: query_outcome.splits list.splits)

lemma retrieve_unknown:
  assumes "chat_collections s c = None"
  shows "retrieve_relevant_context_rag e s c m k = Inl (KeyError c)"
  using assms by (simp add: retrieve_relevant_context_rag_def)

lemma generate_reply_known:
  assumes "PERSONAS p = Some voice" and "chat_collections s c = Some col"
  shows "generate_reply e s p m st c h =
           Inr \<lparr> gr_queries = (if col = [] then [] else [(c, m, min 3 (length col))]),
                 gr_payload =
                   \<lparr> pl_contents = user_message_with_context m h (retrieved_context e col m 3),
                     pl_system_instruction = system_prompt voice m st h (retrieved_context e col m 3) \<rparr>,
                 gr_result = read_response p (requests_post e
                   \<lparr> pl_contents = user_message_with_context m h (retrieved_context e col m 3),
                     pl_system_instruction = system_prompt voice m st h (retrieved_context e col m 3) \<rparr>) \<rparr>"
  using assms by (simp add: generate_reply_def retrieve_known Let_def)

lemma PERSONAS_cases:
  assumes "PERSONAS p = Some voice"
  shows "voice \<in> {strategist_text, visionary_text, rebel_text, orator_text, conversationalist_text}"
  using assms by (auto simp: PERSONAS_def split: if_splits)

lemma no_U_voice:
  assumes "PERSONAS p = Some voice"
  shows "(uc (CHR ''U'')) \<notin> set voice"
proof -
  have "(uc (CHR ''U'')) \<notin> set strategist_text" by (simp add: u_def uc_def strategist_text_def em_dash_def)
  moreover have "(uc (CHR ''U'')) \<notin> set visionary_text" by (simp add: visionary_text_def)
  moreover have "(uc (CHR ''U'')) \<notin> set rebel_text" by (simp add: rebel_text_def)
  moreover have "(uc (CHR ''U'')) \<notin> set orator_text" by (simp add: u_def uc_def orator_text_def em_dash_def)
  moreover have "(uc (CHR ''U'')) \<notin> set conversationalist_text" by (simp add: conversationalist_text_def)
  ultimately show ?thesis using PERSONAS_cases[OF assms] by auto
qed

lemma no_U_length: "(uc (CHR ''U'')) \<notin> set (length_instruction m)"
  by (simp add: length_instruction_def length_30_def length_50_def length_80_def)

lemma no_U_format: "(uc (CHR ''U'')) \<notin> set format_directive"
  by (simp add: format_directive_def)

lemma sublist_needs_char:
  assumes "c \<in> set p" and "c \<notin> set t"
  shows "\<not> sublist p t"
  using assms set_mono_sublist by fastforce

lemma rebel_known: "PERSONAS (u ''The Rebel'') = Some rebel_text"
  by (simp add: PERSONAS_def)

lemma example_state_timo:
  "chat_collections example_state (u ''Timo'') = Some [new_record (u ''Timo'') 1 example_exchange]"
  by (simp add: example_state_def)

lemma init_state_timo: "chat_collections init_state (u ''Timo'') = Some []"
  by (simp add: init_state_def)

lemma rephrase_ignores_context:
  assumes "h \<noteq> []"
  shows "user_message_with_context m h ctx = user_message_with_context m h []"
    and "system_prompt voice m st h ctx = system_prompt voice m st h []"
  using assms
  by (simp_all add: user_message_with_context_def system_prompt_def stance_instruction_def)

lemma R_in_task: "(uc (CHR ''R'')) \<in> set (task_instruction h)"
  by (simp add: task_instruction_def)

lemma no_R_rebel_prompt:
  "(uc (CHR ''R'')) \<notin> set (rebel_text @ (u '' '') @ length_30 @ format_directive)"
  by (simp add: rebel_text_def length_30_def format_directive_def)

lemma words_pizza: "input_words (u ''Want pizza?'') = 2"
  by (simp add: u_def uc_def input_words_def split.simps)

lemma system_prompt_shape:
  "\<exists>before after.
     system_prompt voice m st h ctx
       = voice @ (u '' '') @ before
         @ (if length (split m) < 15
            then (u ''Keep your response to 1-2 sentences maximum (under 30 words).'')
            else if length (split m) < 30
            then (u ''Keep your response to 2-3 sentences (under 50 words).'')
            else (u ''Keep your response concise (under 80 words).''))
         @ format_directive @ after
     \<and> before = (if h \<noteq> [] then []
                 else (u ''Your response MUST '') @ upper st @ (u '' with the user's message. ''))
     \<and> after \<in> {[], (u '' ''), (u '' '') @ memory_instruction_text}"
  by (simp add: system_prompt_def stance_instruction_def length_instruction_def input_words_def
      length_30_def length_50_def length_80_def memory_instruction_def)

lemma split_space: "is_space c \<Longrightarrow> split (c # s) = split s"
  by (subst split.simps, subst (2) split.simps) simp

lemma split_word: "split (u ''word '' @ s) = u ''word'' # split s"
proof -
  have "split (u ''word '' @ s) = u ''word'' # split (32 # s)"
    by (subst split.simps) (simp add: u_def uc_def)
  then show ?thesis by (simp add: split_space)
qed

lemma length_split_words: "length (split (words n)) = n"
proof (induction n)
  case 0
  show ?case by (subst split.simps) (simp add: words_def)
next
  case (Suc n)
  have "words (Suc n) = u ''word '' @ words n" by (simp add: words_def)
  with Suc show ?case by (simp add: split_word)
qed

lemma words_10: "length (split (words 10)) = 10"
  by (rule length_split_words)

lemma words_20: "length (split (words 20)) = 20"
  by (rule length_split_words)

lemma words_40: "length (split (words 40)) = 40"
  by (rule length_split_words)

section \<open>Retrieval and prompt claims\<close>

text \<open>
  C7: for a known chat, retrieval returns a context string and never raises: the empty
  string (and no query) when the collection is empty, the empty string when the query
  raises, and the header, the numbered hits and the footer when the query returns hits.
\<close>

theorem retrieval_never_raises:
  assumes "chat_collections s chat_id = Some col"
  shows "\<exists>calls context.
           retrieve_relevant_context_rag e s chat_id current_message top_k = Inr (calls, context)
         \<and> (col = [] \<longrightarrow> context = [] \<and> calls = [])
         \<and> (\<forall>msg. collection_query e col current_message (min top_k (length col)) = QueryRaised msg
                \<longrightarrow> context = [])
         \<and> (\<forall>docs ds metas ms.
                col \<noteq> [] \<and> docs \<noteq> []
                \<and> collection_query e col current_message (min top_k (length col))
                    = QueryResults (docs # ds) (metas # ms)
                \<longrightarrow> context = context_header @ format_hits 1 (zip docs metas) @ context_footer)"
  using assms by (auto simp: retrieve_known retrieved_context_def)

theorem retrieval_never_raises_witness:
  "chat_collections example_state (u ''Timo'') = Some [new_record (u ''Timo'') 1 example_exchange]
   \<and> retrieve_relevant_context_rag example_env example_state (u ''Timo'') (u ''pizza?'') 3
       = Inr ([((u ''Timo''), (u ''pizza?''), 1)],
              context_header
              @ [newline] @ (u ''1. Past question: '') @ [double_quote] @ (u ''Is pineapple on pizza good?'')
              @ [double_quote, newline] @ (u ''   You (The Rebel) replied: '') @ [double_quote]
              @ (u ''No way.'') @ [double_quote, newline]
              @ context_footer)
   \<and> retrieve_relevant_context_rag example_env init_state (u ''Timo'') (u ''pizza?'') 3 = Inr ([], [])"
proof -
  have h: "chat_collections example_state (u ''Timo'') = Some [new_record (u ''Timo'') 1 example_exchange]"
    by (simp add: example_state_def)
  have h0: "chat_collections init_state (u ''Timo'') = Some []"
    by (simp add: init_state_def)
  have q: "collection_query example_env [new_record (u ''Timo'') 1 example_exchange] (u ''pizza?'')
             (min 3 (length [new_record (u ''Timo'') 1 example_exchange]))
           = QueryResults [[(u ''Is pineapple on pizza good?'')]]
               [[\<lparr> md_response = (u ''No way.''), md_persona = (u ''The Rebel''),
                   md_stance = (u ''Disagree''), md_timestamp = (u ''2024-01-01T00:00:00'') \<rparr>]]"
    by (simp add: example_env_def example_exchange_def)
  from retrieval_never_raises[OF h, of example_env "(u ''pizza?'')" 3] q
  have a: "retrieve_relevant_context_rag example_env example_state (u ''Timo'') (u ''pizza?'') 3
       = Inr ([((u ''Timo''), (u ''pizza?''), 1)],
              context_header @ format_hits 1 (zip [(u ''Is pineapple on pizza good?'')]
                  [\<lparr> md_response = (u ''No way.''), md_persona = (u ''The Rebel''),
                   md_stance = (u ''Disagree''), md_timestamp = (u ''2024-01-01T00:00:00'') \<rparr>])
              @ context_footer)"
    by (auto simp: retrieve_known[OF h] simp del: new_record.simps)
  from retrieval_never_raises[OF h0, of example_env "(u ''pizza?'')" 3]
  have b: "retrieve_relevant_context_rag example_env init_state (u ''Timo'') (u ''pizza?'') 3 = Inr ([], [])"
    by auto
  from a b h show ?thesis
    by (simp add: u_def uc_def format_hit_def str_nat.simps digit_def del: new_record.simps)
qed

text \<open>
  C5, as the claim states it, fails: a request with a draft answer to a chat that holds
  one record issues one similarity query.
\<close>

theorem rephrase_skips_retrieval_counterexample:
  "map_sum id gr_queries
     (generate_reply example_env example_state (u ''The Rebel'') (u ''pizza?'') (u ''Agree'') (u ''Timo'') (u ''No thanks''))
   = Inr [((u ''Timo''), (u ''pizza?''), 1)]"
  by (simp add: generate_reply_known[OF rebel_known example_state_timo] del: new_record.simps)

text \<open>
  C5, amended: retrieval runs in every mode. Whatever the draft answer, no query is issued
  when the chat's collection is empty and exactly one, for \<open>min 3 count\<close> results,
  otherwise; with a draft answer the payload is the one an empty context gives, so the
  retrieved context is not used.
\<close>

theorem retrieval_runs_in_every_mode:
  assumes "PERSONAS persona_name = Some voice" and "chat_collections s chat_id = Some col"
  shows "map_sum id gr_queries
           (generate_reply e s persona_name user_message stance chat_id response_hint)
         = Inr (if col = [] then [] else [(chat_id, user_message, min 3 (length col))])
       \<and> (response_hint \<noteq> [] \<longrightarrow>
            map_sum id gr_payload
              (generate_reply e s persona_name user_message stance chat_id response_hint)
            = Inr \<lparr> pl_contents = user_message_with_context user_message response_hint [],
                    pl_system_instruction =
                      system_prompt voice user_message stance response_hint [] \<rparr>)"
proof -
  note g = generate_reply_known[OF assms, of e user_message stance response_hint]
  have "map_sum id gr_queries
           (generate_reply e s persona_name user_message stance chat_id response_hint)
         = Inr (if col = [] then [] else [(chat_id, user_message, min 3 (length col))])"
    by (simp add: g)
  moreover have "map_sum id gr_payload
              (generate_reply e s persona_name user_message stance chat_id response_hint)
            = Inr \<lparr> pl_contents = user_message_with_context user_message response_hint [],
                    pl_system_instruction =
                      system_prompt voice user_message stance response_hint [] \<rparr>"
    if "response_hint \<noteq> []"
    using rephrase_ignores_context[OF that] by (simp add: g)
  ultimately show ?thesis by blast
qed

theorem retrieval_runs_in_every_mode_witness:
  "PERSONAS (u ''The Rebel'') = Some rebel_text
   \<and> chat_collections example_state (u ''Timo'') = Some [new_record (u ''Timo'') 1 example_exchange]
   \<and> (u ''No thanks'') \<noteq> []
   \<and> map_sum id gr_queries
       (generate_reply example_env example_state (u ''The Rebel'') (u ''pizza?'') (u ''Agree'') (u ''Timo'') (u ''No thanks''))
     = Inr [((u ''Timo''), (u ''pizza?''), 1)]
   \<and> map_sum id gr_payload
       (generate_reply example_env example_state (u ''The Rebel'') (u ''pizza?'') (u ''Agree'') (u ''Timo'') (u ''No thanks''))
     = Inr \<lparr> pl_contents = user_message_with_context (u ''pizza?'') (u ''No thanks'') [],
             pl_system_instruction = system_prompt rebel_text (u ''pizza?'') (u ''Agree'') (u ''No thanks'') [] \<rparr>"
  using retrieval_runs_in_every_mode[OF rebel_known example_state_timo,
      of example_env "(u ''pizza?'')" "(u ''Agree'')" "(u ''No thanks'')"]
    rebel_known example_state_timo
  by (simp del: new_record.simps)

text \<open>
  C4, as the claim states it, fails: with a draft answer the rephrase directive is part
  of the user content, and the system prompt does not contain it.
\<close>

theorem rephrase_directive_counterexample:
  "generate_reply example_env init_state (u ''The Rebel'') (u ''Want pizza?'') (u ''Agree'') (u ''Timo'') (u ''No thanks'')
   = Inr \<lparr> gr_queries = [],
           gr_payload =
             \<lparr> pl_contents = (u ''Incoming message: Want pizza?'') @ [newline, newline]
                 @ (u ''User's draft response: No thanks'') @ [newline, newline]
                 @ task_instruction (u ''No thanks''),
               pl_system_instruction = rebel_text @ (u '' '') @ length_30 @ format_directive \<rparr>,
           gr_result = Failure (u ''Response blocked by safety filters.'') \<rparr>
   \<and> \<not> sublist (task_instruction (u ''No thanks'')) (rebel_text @ (u '' '') @ length_30 @ format_directive)"
proof -
  have "\<not> sublist (task_instruction (u ''No thanks'')) (rebel_text @ (u '' '') @ length_30 @ format_directive)"
    using R_in_task no_R_rebel_prompt by (rule sublist_needs_char)
  moreover have "generate_reply example_env init_state (u ''The Rebel'') (u ''Want pizza?'') (u ''Agree'') (u ''Timo'') (u ''No thanks'')
   = Inr \<lparr> gr_queries = [],
           gr_payload =
             \<lparr> pl_contents = (u ''Incoming message: Want pizza?'') @ [newline, newline]
                 @ (u ''User's draft response: No thanks'') @ [newline, newline]
                 @ task_instruction (u ''No thanks''),
               pl_system_instruction = rebel_text @ (u '' '') @ length_30 @ format_directive \<rparr>,
           gr_result = Failure (u ''Response blocked by safety filters.'') \<rparr>"
    by (simp add: generate_reply_known[OF rebel_known init_state_timo] user_message_with_context_def
        system_prompt_def stance_instruction_def length_instruction_def words_pizza
        example_env_def blocked_data_def read_response_def)
  ultimately show ?thesis by blast
qed

text \<open>
  C4, amended: with a draft answer, the system prompt is the persona text, the length
  directive and the format directive, and never contains the text
  \<open>Your response MUST\<close>; the user content is the incoming message, the draft and the
  rephrase directive. Neither depends on the stance or on the retrieved context.
\<close>

theorem rephrase_mode_prompt:
  assumes "PERSONAS persona_name = Some voice" and "chat_collections s chat_id = Some col"
    and "response_hint \<noteq> []"
  shows "\<exists>out. generate_reply e s persona_name user_message stance chat_id response_hint = Inr out
         \<and> pl_system_instruction (gr_payload out)
             = voice @ (u '' '') @ length_instruction user_message @ format_directive
         \<and> pl_contents (gr_payload out)
             = (u ''Incoming message: '') @ user_message @ [newline, newline]
               @ (u ''User's draft response: '') @ response_hint @ [newline, newline]
               @ task_instruction response_hint
         \<and> \<not> sublist (u ''Your response MUST'') (pl_system_instruction (gr_payload out))"
proof -
  have "(uc (CHR ''U'')) \<notin> set (voice @ (u '' '') @ length_instruction user_message @ format_directive)"
    using no_U_voice[OF assms(1)] no_U_length[of user_message] no_U_format by simp
  moreover have "(uc (CHR ''U'')) \<in> set (u ''Your response MUST'')" by simp
  ultimately have "\<not> sublist (u ''Your response MUST'')
      (voice @ (u '' '') @ length_instruction user_message @ format_directive)"
    by (rule sublist_needs_char[rotated])
  then show ?thesis
    using assms(3)
    by (simp add: generate_reply_known[OF assms(1,2)] user_message_with_context_def
        system_prompt_def stance_instruction_def)
qed

theorem rephrase_mode_prompt_witness:
  "PERSONAS (u ''The Rebel'') = Some rebel_text
   \<and> chat_collections example_state (u ''Timo'') = Some [new_record (u ''Timo'') 1 example_exchange]
   \<and> (u ''No thanks'') \<noteq> []
   \<and> (\<exists>out. generate_reply example_env example_state (u ''The Rebel'') (u ''Want pizza?'') (u ''Disagree'') (u ''Timo'')
               (u ''No thanks'') = Inr out
         \<and> pl_system_instruction (gr_payload out)
             = rebel_text @ (u '' Keep your response to 1-2 sentences maximum (under 30 words).'')
               @ format_directive
         \<and> \<not> sublist (u ''Your response MUST'') (pl_system_instruction (gr_payload out)))"
proof -
  have ne: "(u ''No thanks'') \<noteq> []" by simp
  from rephrase_mode_prompt[OF rebel_known example_state_timo ne,
      of example_env "(u ''Want pizza?'')" "(u ''Disagree'')"]
  show ?thesis
    using rebel_known example_state_timo
    by (auto simp: length_instruction_def words_pizza length_30_def simp del: new_record.simps)
qed

text \<open>
  C2: in both modes the system prompt holds, between the mode's own prefix and the format
  directive, the length directive chosen by the number of whitespace-separated words of
  the message alone: under 15 words the 30-word directive, under 30 words the 50-word
  directive, the 80-word directive otherwise.
\<close>

theorem length_directive_by_word_count:
  assumes "PERSONAS persona_name = Some voice" and "chat_collections s chat_id = Some col"
  shows "\<exists>out before after.
           generate_reply e s persona_name user_message stance chat_id response_hint = Inr out
         \<and> pl_system_instruction (gr_payload out)
             = voice @ (u '' '') @ before
               @ (if length (split user_message) < 15
                  then (u ''Keep your response to 1-2 sentences maximum (under 30 words).'')
                  else if length (split user_message) < 30
                  then (u ''Keep your response to 2-3 sentences (under 50 words).'')
                  else (u ''Keep your response concise (under 80 words).''))
               @ format_directive @ after
         \<and> before = (if response_hint \<noteq> [] then []
                     else (u ''Your response MUST '') @ upper stance @ (u '' with the user's message. ''))
         \<and> after \<in> {[], (u '' ''), (u '' '') @ memory_instruction_text}"
  using system_prompt_shape[of voice user_message stance response_hint
      "retrieved_context e col user_message 3"]
  by (simp add: generate_reply_known[OF assms])

theorem length_directive_by_word_count_witness:
  "PERSONAS (u ''The Rebel'') = Some rebel_text \<and> chat_collections init_state (u ''Timo'') = Some []
   \<and> (\<exists>out. generate_reply example_env init_state (u ''The Rebel'') (words 10) (u ''Agree'') (u ''Timo'') [] = Inr out
         \<and> pl_system_instruction (gr_payload out)
             = rebel_text @ (u '' Your response MUST AGREE with the user's message. '')
               @ (u ''Keep your response to 1-2 sentences maximum (under 30 words).'')
               @ format_directive @ (u '' ''))
   \<and> (\<exists>out. generate_reply example_env init_state (u ''The Rebel'') (words 20) (u ''Agree'') (u ''Timo'') (u ''ok'') = Inr out
         \<and> pl_system_instruction (gr_payload out)
             = rebel_text @ (u '' '')
               @ (u ''Keep your response to 2-3 sentences (under 50 words).'')
               @ format_directive)
   \<and> (\<exists>out. generate_reply example_env init_state (u ''The Rebel'') (words 40) (u ''Agree'') (u ''Timo'') (u ''ok'') = Inr out
         \<and> pl_system_instruction (gr_payload out)
             = rebel_text @ (u '' '')
               @ (u ''Keep your response concise (under 80 words).'')
               @ format_directive)"
proof -
  note t = length_directive_by_word_count[OF rebel_known init_state_timo, of example_env]
  have up: "upper (u ''Agree'') = (u ''AGREE'')" by (simp add: u_def uc_def upper_def upper_char_def)
  have ctx: "retrieved_context example_env [] m 3 = []" for m
    by (simp add: retrieved_context_def)
  have g: "generate_reply example_env init_state (u ''The Rebel'') m (u ''Agree'') (u ''Timo'') h
       = Inr out \<Longrightarrow> pl_system_instruction (gr_payload out) = system_prompt rebel_text m (u ''Agree'') h []" for m h out
    by (auto simp: generate_reply_known[OF rebel_known init_state_timo] ctx)
  from t[of "words 10" "(u ''Agree'')" "[]"] obtain o1 where
    o1: "generate_reply example_env init_state (u ''The Rebel'') (words 10) (u ''Agree'') (u ''Timo'') [] = Inr o1"
    by blast
  from t[of "words 20" "(u ''Agree'')" "(u ''ok'')"] obtain o2 where
    o2: "generate_reply example_env init_state (u ''The Rebel'') (words 20) (u ''Agree'') (u ''Timo'') (u ''ok'') = Inr o2"
    by blast
  from t[of "words 40" "(u ''Agree'')" "(u ''ok'')"] obtain o3 where
    o3: "generate_reply example_env init_state (u ''The Rebel'') (words 40) (u ''Agree'') (u ''Timo'') (u ''ok'') = Inr o3"
    by blast
  show ?thesis
    using o1 o2 o3 g[OF o1] g[OF o2] g[OF o3] rebel_known init_state_timo
    by (simp add: system_prompt_def stance_instruction_def length_instruction_def input_words_def
        words_10 words_20 words_40 up memory_instruction_def length_30_def length_50_def length_80_def)
qed

section \<open>Lemmas on the generate route\<close>

lemma store_exchange_form:
  assumes "store_exchange s c x = Inr s'"
  shows "\<exists>col n v. chat_collections s c = Some col \<and> conversation_counter s c = Some n
           \<and> s' = s \<lparr> chat_collections := (chat_collections s)(c \<mapsto> v),
                       conversation_counter := (conversation_counter s)(c \<mapsto> n + 1) \<rparr>"
proof -
  obtain now m p st r where x: "x = (now, m, p, st, r)" by (cases x) auto
  from assms obtain col n where col: "chat_collections s c = Some col"
    and cnt: "conversation_counter s c = Some n"
    by (rule store_exchange_cases)
  from assms show ?thesis
    unfolding x store_exchange.simps store_conversation_rag_def col cnt option.case Let_def
    by blast
qed

lemma store_exchange_dom:
  assumes "store_exchange s c x = Inr s'"
  shows "dom (chat_collections s') = dom (chat_collections s)
       \<and> dom (conversation_counter s') = dom (conversation_counter s)"
proof -
  from store_exchange_form[OF assms] obtain col n v where
    "chat_collections s c = Some col" "conversation_counter s c = Some n"
    "s' = s \<lparr> chat_collections := (chat_collections s)(c \<mapsto> v),
               conversation_counter := (conversation_counter s)(c \<mapsto> n + 1) \<rparr>"
    by blast
  then show ?thesis by (simp add: insert_absorb domI)
qed

lemma clear_memory_dom:
  "dom (chat_collections (snd (clear_memory s c))) = dom (chat_collections s)
   \<and> (dom (chat_collections s) = dom (conversation_counter s) \<longrightarrow>
        dom (conversation_counter (snd (clear_memory s c))) = dom (conversation_counter s))"
proof (cases "chat_collections s c")
  case None
  then show ?thesis by (simp add: clear_memory_unknown)
next
  case (Some col)
  then have "c \<in> dom (chat_collections s)" by (rule domI)
  with Some show ?thesis by (auto simp: clear_memory_known insert_absorb)
qed

lemma reachable_dom:
  "reachable s \<Longrightarrow>
   dom (chat_collections s) = {(u ''Timo''), (u ''Shark'')} \<and> dom (conversation_counter s) = {(u ''Timo''), (u ''Shark'')}"
proof (induction rule: reachable.induct)
  case initial
  show ?case by (auto simp: init_state_def split: if_splits)
next
  case (stored s chat_id x s')
  from store_exchange_dom[OF stored.hyps(2)] stored.IH show ?case by simp
next
  case (cleared s chat_id)
  from clear_memory_dom[of s chat_id] cleared.IH show ?case by simp
next
  case (generated s e now data)
  from generate_single_reply_state[of e s now data]
  show ?case
  proof
    assume "snd (generate_single_reply e s now data) = s"
    with generated.IH show ?thesis by simp
  next
    assume "\<exists>c x. store_exchange s c x = Inr (snd (generate_single_reply e s now data))"
    then obtain c x where "store_exchange s c x = Inr (snd (generate_single_reply e s now data))"
      by blast
    from store_exchange_dom[OF this] generated.IH show ?thesis by simp
  qed
qed

lemma reachable_known:
  assumes "reachable s" and "c \<in> {(u ''Timo''), (u ''Shark'')}"
  shows "\<exists>col n. chat_collections s c = Some col \<and> conversation_counter s c = Some n"
  using reachable_dom[OF assms(1)] assms(2) by (metis domD)

lemma failure_keeps_state:
  assumes "body (fst (generate_single_reply e s now data)) = Failure msg"
  shows "snd (generate_single_reply e s now data) = s"
proof -
  define um where "um = strip (get_or (req_message data) [])"
  define pn where "pn = get_or (req_persona data) []"
  define st where "st = get_or (req_stance data) (u ''Agree'')"
  define c where "c = get_or (req_chat_id data) (u ''Timo'')"
  define h where "h = strip (get_or (req_response_hint data) [])"
  have eq: "generate_single_reply e s now data =
     (if gemini_api_key e = [] then (\<lparr> status = 500, body = Failure (u ''API key missing'') \<rparr>, s)
      else if um = [] then (\<lparr> status = 400, body = Failure (u ''Message is required'') \<rparr>, s)
      else if PERSONAS pn = None then (\<lparr> status = 400, body = Failure (u ''Invalid persona'') \<rparr>, s)
      else if chat_collections s c = None then (\<lparr> status = 400, body = Failure (u ''Invalid chat ID'') \<rparr>, s)
      else (case generate_reply e s pn um st c h of
                 Inl err \<Rightarrow> (\<lparr> status = 500, body = Failure (str_error err) \<rparr>, s)
               | Inr out \<Rightarrow>
                  (case gr_result out of
                     Failure msg \<Rightarrow> (\<lparr> status = 200, body = Failure msg \<rparr>, s)
                   | Success reply persona \<Rightarrow>
                      (case store_conversation_rag s now c um pn st reply of
                         Inl err \<Rightarrow> (\<lparr> status = 500, body = Failure (str_error err) \<rparr>, s)
                       | Inr s' \<Rightarrow> (\<lparr> status = 200, body = Success reply persona \<rparr>, s')))))"
    unfolding generate_single_reply_def Let_def um_def pn_def st_def c_def h_def by simp
  show ?thesis
    using assms unfolding eq
    by (simp split: if_splits sum.splits reply_result.splits)
qed

lemma generate_single_reply_valid:
  assumes "gemini_api_key e \<noteq> []"
    and "strip (get_or (req_message data) []) \<noteq> []"
    and "PERSONAS (get_or (req_persona data) []) = Some voice"
    and "chat_collections s (get_or (req_chat_id data) (u ''Timo'')) = Some col"
  shows "generate_single_reply e s now data =
     (case generate_reply e s (get_or (req_persona data) []) (strip (get_or (req_message data) []))
             (get_or (req_stance data) (u ''Agree'')) (get_or (req_chat_id data) (u ''Timo''))
             (strip (get_or (req_response_hint data) [])) of
        Inl err \<Rightarrow> (\<lparr> status = 500, body = Failure (str_error err) \<rparr>, s)
      | Inr out \<Rightarrow>
         (case gr_result out of
            Failure msg \<Rightarrow> (\<lparr> status = 200, body = Failure msg \<rparr>, s)
          | Success reply persona \<Rightarrow>
             (case store_conversation_rag s now (get_or (req_chat_id data) (u ''Timo''))
                     (strip (get_or (req_message data) [])) (get_or (req_persona data) [])
                     (get_or (req_stance data) (u ''Agree'')) reply of
                Inl err \<Rightarrow> (\<lparr> status = 500, body = Failure (str_error err) \<rparr>, s)
              | Inr s' \<Rightarrow> (\<lparr> status = 200, body = Success reply persona \<rparr>, s'))))"
  unfolding generate_single_reply_def Let_def using assms by simp


lemma strip_pizza: "strip (u ''Is pineapple on pizza good?'') = (u ''Is pineapple on pizza good?'')"
  by (simp add: u_def uc_def strip_def)

lemma store_total:
  assumes "chat_collections s c = Some col" and "conversation_counter s c = Some n"
  shows "\<exists>s'. store_conversation_rag s now c m p st r = Inr s'"
  using assms by (simp add: store_conversation_rag_def Let_def)

lemma store_never_raises:
  assumes "chat_collections s c = Some col" and "conversation_counter s c = Some n"
  shows "store_conversation_rag s now c m p st r \<noteq> Inl err"
  using assms by (simp add: store_conversation_rag_def Let_def)

lemma known_chat_iff:
  assumes "reachable s"
  shows "chat_collections s c = None \<longleftrightarrow> c \<notin> {(u ''Timo''), (u ''Shark'')}"
  using reachable_dom[OF assms] by (metis domIff)

lemma default_chat_unknown_iff:
  "get_or field (u ''Timo'') \<notin> {(u ''Timo''), (u ''Shark'')}
   \<longleftrightarrow> (\<exists>c. field = Some c \<and> c \<notin> {(u ''Timo''), (u ''Shark'')})"
  by (cases field) (simp_all add: get_or_def)

lemma status_of_valid:
  assumes "reachable s"
    and "gemini_api_key e \<noteq> []"
    and "strip (get_or (req_message data) []) \<noteq> []"
    and "PERSONAS (get_or (req_persona data) []) = Some voice"
    and "chat_collections s (get_or (req_chat_id data) (u ''Timo'')) = Some col"
  shows "status (fst (generate_single_reply e s now data)) = 200"
proof -
  let ?c = "get_or (req_chat_id data) (u ''Timo'')"
  from assms(5) have "?c \<in> dom (chat_collections s)" by (rule domI)
  with reachable_dom[OF assms(1)] have "?c \<in> dom (conversation_counter s)" by simp
  then obtain n where n: "conversation_counter s ?c = Some n" by (auto simp: dom_def)
  show ?thesis
    unfolding generate_single_reply_valid[OF assms(2,3,4,5)] generate_reply_known[OF assms(4,5)]
    by (simp add: store_never_raises[OF assms(5) n] split: reply_result.splits sum.splits)
qed

section \<open>Route claims\<close>



text \<open>
  C10: in a reachable state the generate route answers 400 exactly when, with the API key
  configured, the stripped message is empty, the persona is not a key of \<open>PERSONAS\<close>,
  or a chat id is supplied that is neither \<open>Timo\<close> nor \<open>Shark\<close>. Leaving out stance,
  chat id and draft is the same as sending \<open>Agree\<close>, \<open>Timo\<close> and the empty draft, and
  a request with the key configured, a message, a known persona and no chat id is
  answered with status 200.
\<close>

theorem generate_request_defaults:
  assumes "reachable s"
  shows "(status (fst (generate_single_reply e s now data)) = 400
          \<longleftrightarrow> gemini_api_key e \<noteq> []
              \<and> (strip (get_or (req_message data) []) = []
                  \<or> PERSONAS (get_or (req_persona data) []) = None
                  \<or> (\<exists>c. req_chat_id data = Some c \<and> c \<notin> {(u ''Timo''), (u ''Shark'')})))
       \<and> generate_single_reply e s now
            (data \<lparr> req_stance := None, req_chat_id := None, req_response_hint := None \<rparr>)
          = generate_single_reply e s now
              (data \<lparr> req_stance := Some (u ''Agree''), req_chat_id := Some (u ''Timo''),
                      req_response_hint := Some [] \<rparr>)
       \<and> (gemini_api_key e \<noteq> [] \<and> strip (get_or (req_message data) []) \<noteq> []
            \<and> PERSONAS (get_or (req_persona data) []) \<noteq> None \<and> req_chat_id data = None
          \<longrightarrow> status (fst (generate_single_reply e s now data)) = 200)"
proof (intro conjI)
  let ?c = "get_or (req_chat_id data) (u ''Timo'')"
  have unknown: "chat_collections s ?c = None
      \<longleftrightarrow> (\<exists>c. req_chat_id data = Some c \<and> c \<notin> {(u ''Timo''), (u ''Shark'')})"
    unfolding known_chat_iff[OF assms] by (rule default_chat_unknown_iff)
  show "status (fst (generate_single_reply e s now data)) = 400
          \<longleftrightarrow> gemini_api_key e \<noteq> []
              \<and> (strip (get_or (req_message data) []) = []
                  \<or> PERSONAS (get_or (req_persona data) []) = None
                  \<or> (\<exists>c. req_chat_id data = Some c \<and> c \<notin> {(u ''Timo''), (u ''Shark'')}))"
  proof (cases "gemini_api_key e \<noteq> [] \<and> strip (get_or (req_message data) []) \<noteq> []
      \<and> PERSONAS (get_or (req_persona data) []) \<noteq> None \<and> chat_collections s ?c \<noteq> None")
    case True
    then obtain voice col where "PERSONAS (get_or (req_persona data) []) = Some voice"
      "chat_collections s ?c = Some col" by auto
    with True assms have "status (fst (generate_single_reply e s now data)) = 200"
      by (intro status_of_valid) auto
    with True unknown show ?thesis by simp
  next
    case False
    then show ?thesis
      unfolding unknown[symmetric]
      by (auto simp: generate_single_reply_def Let_def)
  qed
next
  show "generate_single_reply e s now
            (data \<lparr> req_stance := None, req_chat_id := None, req_response_hint := None \<rparr>)
          = generate_single_reply e s now
              (data \<lparr> req_stance := Some (u ''Agree''), req_chat_id := Some (u ''Timo''),
                      req_response_hint := Some [] \<rparr>)"
    by (simp add: generate_single_reply_def get_or_def strip_def)
next
  show "gemini_api_key e \<noteq> [] \<and> strip (get_or (req_message data) []) \<noteq> []
            \<and> PERSONAS (get_or (req_persona data) []) \<noteq> None \<and> req_chat_id data = None
          \<longrightarrow> status (fst (generate_single_reply e s now data)) = 200"
  proof
    assume a: "gemini_api_key e \<noteq> [] \<and> strip (get_or (req_message data) []) \<noteq> []
            \<and> PERSONAS (get_or (req_persona data) []) \<noteq> None \<and> req_chat_id data = None"
    then obtain voice where v: "PERSONAS (get_or (req_persona data) []) = Some voice" by auto
    from a have "get_or (req_chat_id data) (u ''Timo'') = (u ''Timo'')" by (simp add: get_or_def)
    with reachable_known[OF assms, of "(u ''Timo'')"]
    obtain col where "chat_collections s (get_or (req_chat_id data) (u ''Timo'')) = Some col"
      by auto
    with a v assms show "status (fst (generate_single_reply e s now data)) = 200"
      by (intro status_of_valid) auto
  qed
qed

theorem generate_request_defaults_witness:
  "reachable example_state
   \<and> gemini_api_key example_env \<noteq> []
   \<and> strip (get_or (req_message minimal_request) []) \<noteq> []
   \<and> PERSONAS (get_or (req_persona minimal_request) []) \<noteq> None
   \<and> req_chat_id minimal_request = None
   \<and> status (fst (generate_single_reply example_env example_state (u ''2024-01-02T00:00:00'')
         minimal_request)) = 200
   \<and> status (fst (generate_single_reply example_env example_state (u ''2024-01-02T00:00:00'')
         (minimal_request \<lparr> req_chat_id := Some (u ''Bob'') \<rparr>))) = 400"
proof -
  have h: "gemini_api_key example_env \<noteq> []
      \<and> strip (get_or (req_message minimal_request) []) \<noteq> []
      \<and> PERSONAS (get_or (req_persona minimal_request) []) \<noteq> None
      \<and> req_chat_id minimal_request = None"
    by (simp add: example_env_def minimal_request_def get_or_def strip_pizza rebel_known)
  have b: "gemini_api_key example_env \<noteq> []
      \<and> (\<exists>c. req_chat_id (minimal_request \<lparr> req_chat_id := Some (u ''Bob'') \<rparr>) = Some c
             \<and> c \<notin> {(u ''Timo''), (u ''Shark'')})"
    by (simp add: example_env_def)
  from generate_request_defaults[OF example_state_reachable, of example_env
      "(u ''2024-01-02T00:00:00'')" minimal_request] h
  have ok: "status (fst (generate_single_reply example_env example_state (u ''2024-01-02T00:00:00'')
         minimal_request)) = 200"
    by blast
  from generate_request_defaults[OF example_state_reachable, of example_env
      "(u ''2024-01-02T00:00:00'')" "minimal_request \<lparr> req_chat_id := Some (u ''Bob'') \<rparr>"] b
  have bad: "status (fst (generate_single_reply example_env example_state (u ''2024-01-02T00:00:00'')
         (minimal_request \<lparr> req_chat_id := Some (u ''Bob'') \<rparr>))) = 400"
    by blast
  from example_state_reachable h ok bad show ?thesis by blast
qed

section \<open>Lemmas on cleaning the generated text\<close>

lemma quoted_match_hit:
  assumes "is_space w1" and "is_space w2" and "run \<noteq> []" and "length run \<le> 30"
    and "double_quote \<notin> set run"
  shows "quoted_match (w1 # double_quote # run @ double_quote # w2 # rest) = Some (run, rest)"
proof -
  have nq: "\<And>x. x \<in> set run \<Longrightarrow> x \<noteq> double_quote" using assms(5) by auto
  have tw: "takeWhile (\<lambda>c. c \<noteq> double_quote) (run @ double_quote # w2 # rest) = run"
    using nq by simp
  have dw: "dropWhile (\<lambda>c. c \<noteq> double_quote) (run @ double_quote # w2 # rest)
              = double_quote # w2 # rest"
    using nq by simp
  from assms(3) have "1 \<le> length run" by (cases run) auto
  with assms(1,2,4) show ?thesis
    by (simp add: quoted_match_def tw dw)
qed

lemma quoted_match_needs_quote:
  assumes "double_quote \<notin> set s"
  shows "quoted_match s = None"
  using assms by (auto simp: quoted_match_def split: list.splits)

lemma re_sub_quotes_no_quote:
  "double_quote \<notin> set s \<Longrightarrow> re_sub_quotes s = s"
proof (induction s)
  case Nil
  show ?case by simp
next
  case (Cons c cs)
  from Cons.prems have "quoted_match (c # cs) = None" by (rule quoted_match_needs_quote)
  with Cons show ?case by simp
qed

lemma quoted_match_sets:
  assumes "quoted_match s = Some (run, rest)"
  shows "set run \<subseteq> set s" and "set rest \<subseteq> set s"
proof -
  from assms obtain w q t q2 w2 where s: "s = w # q # t"
    and run: "run = takeWhile (\<lambda>c. c \<noteq> double_quote) t"
    and after: "dropWhile (\<lambda>c. c \<noteq> double_quote) t = q2 # w2 # rest"
    by (auto simp: quoted_match_def Let_def split: list.splits if_splits)
  have "set run \<subseteq> set t" unfolding run by (auto dest: set_takeWhileD)
  then show "set run \<subseteq> set s" using s by auto
  have "set (dropWhile (\<lambda>c. c \<noteq> double_quote) t) \<subseteq> set t" by (auto dest: set_dropWhileD)
  with after have "set rest \<subseteq> set t" by auto
  then show "set rest \<subseteq> set s" using s by auto
qed

lemma set_re_sub_quotes: "set (re_sub_quotes s) \<subseteq> insert ((uc (CHR '' ''))) (set s)"
proof (induction s rule: re_sub_quotes.induct)
  case 1
  show ?case by simp
next
  case (2 c cs)
  show ?case
  proof (cases "quoted_match (c # cs)")
    case None
    from 2(1)[OF None] have "set (re_sub_quotes cs) \<subseteq> insert ((uc (CHR '' ''))) (set cs)" .
    with None show ?thesis by auto
  next
    case (Some m)
    obtain run rest where m: "m = (run, rest)" by (cases m)
    from Some m have qm: "quoted_match (c # cs) = Some (run, rest)" by simp
    from 2(2)[OF Some m[symmetric]]
    have "set (re_sub_quotes rest) \<subseteq> insert ((uc (CHR '' ''))) (set rest)" .
    with quoted_match_sets[OF qm] qm show ?thesis by (auto simp: u_def uc_def)
  qed
qed

lemma clean_text_filter:
  "clean_text t = re_sub_quotes (filter (\<lambda>c. c \<noteq> (uc (CHR ''*'')) \<and> c \<noteq> (uc (CHR ''_''))) (strip t))"
  by (simp add: clean_text_def remove_char_def conj_commute)

lemma clean_text_no_markers:
  "(uc (CHR ''*'')) \<notin> set (clean_text t) \<and> (uc (CHR ''_'')) \<notin> set (clean_text t)"
  using set_re_sub_quotes[of "filter (\<lambda>c. c \<noteq> (uc (CHR ''*'')) \<and> c \<noteq> (uc (CHR ''_''))) (strip t)"]
  unfolding clean_text_filter by auto

lemma ex_bold: "clean_text (u ''**bold**'') = (u ''bold'')"
  by (simp add: u_def uc_def clean_text_def remove_char_def strip_def quoted_match_def double_quote_def)

lemma ex_italic: "clean_text (u ''_italic_'') = (u ''italic'')"
  by (simp add: u_def uc_def clean_text_def remove_char_def strip_def quoted_match_def double_quote_def)

lemma ex_mid:
  "clean_text ((u ''he said '') @ [double_quote] @ (u ''hello there'') @ [double_quote] @ (u '' ok''))
   = (u ''he said hello there ok'')"
  by (simp add: u_def uc_def clean_text_def remove_char_def strip_def quoted_match_def double_quote_def)

lemma ex_end:
  "clean_text ((u ''he said '') @ [double_quote] @ (u ''hello there'') @ [double_quote])
   = (u ''he said '') @ [double_quote] @ (u ''hello there'') @ [double_quote]"
  by (simp add: u_def uc_def clean_text_def remove_char_def strip_def quoted_match_def double_quote_def)

lemma ex_adjacent:
  "clean_text ((u ''a '') @ [double_quote] @ (u ''b'') @ [double_quote] @ (u '' '') @ [double_quote] @ (u ''c'') @ [double_quote] @ (u '' d''))
   = (u ''a b '') @ [double_quote] @ (u ''c'') @ [double_quote] @ (u '' d'')"
  by (simp add: u_def uc_def clean_text_def remove_char_def strip_def quoted_match_def double_quote_def)

section \<open>Lemmas on sequences of generations\<close>

lemma success_stores:
  assumes "body (fst (generate_single_reply e s now data)) = Success reply p"
  shows "store_conversation_rag s now (get_or (req_chat_id data) (u ''Timo''))
           (strip (get_or (req_message data) [])) (get_or (req_persona data) [])
           (get_or (req_stance data) (u ''Agree'')) reply
         = Inr (snd (generate_single_reply e s now data))"
proof -
  define um where "um = strip (get_or (req_message data) [])"
  define pn where "pn = get_or (req_persona data) []"
  define st where "st = get_or (req_stance data) (u ''Agree'')"
  define c where "c = get_or (req_chat_id data) (u ''Timo'')"
  define h where "h = strip (get_or (req_response_hint data) [])"
  have eq: "generate_single_reply e s now data =
     (if gemini_api_key e = [] then (\<lparr> status = 500, body = Failure (u ''API key missing'') \<rparr>, s)
      else if um = [] then (\<lparr> status = 400, body = Failure (u ''Message is required'') \<rparr>, s)
      else if PERSONAS pn = None then (\<lparr> status = 400, body = Failure (u ''Invalid persona'') \<rparr>, s)
      else if chat_collections s c = None then (\<lparr> status = 400, body = Failure (u ''Invalid chat ID'') \<rparr>, s)
      else (case generate_reply e s pn um st c h of
                 Inl err \<Rightarrow> (\<lparr> status = 500, body = Failure (str_error err) \<rparr>, s)
               | Inr out \<Rightarrow>
                  (case gr_result out of
                     Failure msg \<Rightarrow> (\<lparr> status = 200, body = Failure msg \<rparr>, s)
                   | Success reply persona \<Rightarrow>
                      (case store_conversation_rag s now c um pn st reply of
                         Inl err \<Rightarrow> (\<lparr> status = 500, body = Failure (str_error err) \<rparr>, s)
                       | Inr s' \<Rightarrow> (\<lparr> status = 200, body = Success reply persona \<rparr>, s')))))"
    unfolding generate_single_reply_def Let_def um_def pn_def st_def c_def h_def by simp
  show ?thesis
    using assms unfolding eq um_def[symmetric] pn_def[symmetric] st_def[symmetric] c_def[symmetric]
    by (simp split: if_splits sum.splits reply_result.splits)
qed

lemma route_cases:
  obtains (failed) msg where "body (fst (route s g)) = Failure msg" "snd (route s g) = s"
      "stored_by c g (fst (route s g)) = []"
  | (other) x d where "d \<noteq> c" "store_exchange s d x = Inr (snd (route s g))"
      "stored_by c g (fst (route s g)) = []"
  | (stored) x where "store_exchange s c x = Inr (snd (route s g))"
      "stored_by c g (fst (route s g)) = [x]"
proof -
  obtain e now data where g: "g = (e, now, data)" by (cases g) auto
  show ?thesis
  proof (cases "body (fst (generate_single_reply e s now data))")
    case (Failure msg)
    then have "snd (generate_single_reply e s now data) = s" by (rule failure_keeps_state)
    with Failure show ?thesis by (intro failed[of msg]) (simp_all add: g)
  next
    case (Success reply p)
    let ?d = "get_or (req_chat_id data) (u ''Timo'')"
    let ?x = "(now, strip (get_or (req_message data) []), get_or (req_persona data) [],
                 get_or (req_stance data) (u ''Agree''), reply)"
    from success_stores[OF Success] have st: "store_exchange s ?d ?x = Inr (snd (route s g))"
      by (simp add: g)
    show ?thesis
    proof (cases "?d = c")
      case True
      with st Success show ?thesis by (intro stored[of ?x]) (simp_all add: g)
    next
      case False
      with st Success show ?thesis by (intro other[of ?d ?x]) (simp_all add: g)
    qed
  qed
qed

lemma store_elsewhere:
  assumes "store_exchange s d x = Inr s'" and "d \<noteq> c"
  shows "chat_collections s' c = chat_collections s c"
    and "conversation_counter s' c = conversation_counter s c"
proof -
  from store_exchange_form[OF assms(1)] obtain col n v where
    "s' = s \<lparr> chat_collections := (chat_collections s)(d \<mapsto> v),
               conversation_counter := (conversation_counter s)(d \<mapsto> n + 1) \<rparr>"
    by blast
  with assms(2) show "chat_collections s' c = chat_collections s c"
    and "conversation_counter s' c = conversation_counter s c"
    by simp_all
qed

lemma generate_all_general:
  assumes "chat_collections s c = Some col"
    and "conversation_counter s c = Some k"
    and "length col \<le> 20"
    and "ids_in_order c k col"
  shows "chat_collections (snd (generate_all s gs)) c
           = Some (drop (length col + length (stored_exchanges c gs (fst (generate_all s gs))) - 20)
                     (col @ records_from c k (stored_exchanges c gs (fst (generate_all s gs)))))
       \<and> conversation_counter (snd (generate_all s gs)) c
           = Some (k + length (stored_exchanges c gs (fst (generate_all s gs))))"
  using assms
proof (induction gs arbitrary: s col k)
  case Nil
  then show ?case by simp
next
  case (Cons g gs)
  let ?s1 = "snd (route s g)"
  let ?xs = "stored_exchanges c gs (fst (generate_all ?s1 gs))"
  show ?case
  proof (cases rule: route_cases[of s g c])
    case (failed msg)
    with Cons.IH[OF Cons.prems] show ?thesis by simp
  next
    case (other x d)
    from store_elsewhere[OF other(2,1)] Cons.prems
    have "chat_collections ?s1 c = Some col" "conversation_counter ?s1 c = Some k" by simp_all
    from Cons.IH[OF this Cons.prems(3,4)] other(3) show ?thesis by simp
  next
    case (stored x)
    let ?col' = "drop (length col + 1 - 20) (col @ [new_record c (k + 1) x])"
    from store_in_order[OF Cons.prems(1,2,4), of x] stored(1)
    have s1: "?s1 = s \<lparr> chat_collections := (chat_collections s)(c \<mapsto> ?col'),
                         conversation_counter := (conversation_counter s)(c \<mapsto> k + 1) \<rparr>"
      by simp
    then have c1: "chat_collections ?s1 c = Some ?col'" and k1: "conversation_counter ?s1 c = Some (k + 1)"
      by simp_all
    have len': "length ?col' \<le> 20" using Cons.prems(3) by simp
    have ord': "ids_in_order c (k + 1) ?col'"
      using Cons.prems(4) by (intro ids_in_order_drop ids_in_order_snoc)
    have eq: "drop (length ?col' + length ?xs - 20) (?col' @ records_from c (k + 1) ?xs)
          = drop (length col + length (x # ?xs) - 20) (col @ records_from c k (x # ?xs))"
    proof (cases "length col < 20")
      case True
      then show ?thesis by simp
    next
      case False
      with Cons.prems(3) have l: "length col = 20" by simp
      then show ?thesis
        using drop_drop_append[of 1 "col @ [new_record c (k + 1) x]" "length ?xs" "records_from c (k + 1) ?xs"]
        by simp
    qed
    from Cons.IH[OF c1 k1 len' ord'] eq stored(2) show ?thesis
      by (simp del: new_record.simps)
  qed
qed

lemma length_stored_exchanges:
  "length (stored_exchanges c gs rs) = length (filter (succeeded_for c) (zip gs rs))"
proof (induction gs arbitrary: rs)
  case Nil
  show ?case by simp
next
  case (Cons g gs)
  show ?case
  proof (cases rs)
    case Nil
    then show ?thesis by simp
  next
    case (Cons r rs')
    obtain e now data where "g = (e, now, data)" by (cases g) auto
    with Cons Cons.IH[of rs'] show ?thesis by (simp split: reply_result.splits)
  qed
qed

lemma sure_clean: "clean_text (u ''**Sure** thing'') = u ''Sure thing''"
  by (simp add: u_def uc_def clean_text_def remove_char_def strip_def quoted_match_def double_quote_def)

lemma friendly_route:
  assumes "chat_collections s (u ''Timo'') = Some col"
    and "conversation_counter s (u ''Timo'') = Some k"
  shows "fst (route s pizza_generation)
           = \<lparr> status = 200, body = Success (u ''Sure thing'') (u ''The Rebel'') \<rparr>"
    and "\<exists>col' k'. chat_collections (snd (route s pizza_generation)) (u ''Timo'') = Some col'
           \<and> conversation_counter (snd (route s pizza_generation)) (u ''Timo'') = Some k'"
proof -
  have key: "gemini_api_key friendly_env \<noteq> []" by (simp add: friendly_env_def)
  have msg: "strip (get_or (req_message pizza_request) []) \<noteq> []"
    by (simp add: pizza_request_def get_or_def strip_pizza)
  have per: "PERSONAS (get_or (req_persona pizza_request) []) = Some rebel_text"
    by (simp add: pizza_request_def get_or_def rebel_known)
  have chat: "chat_collections s (get_or (req_chat_id pizza_request) (u ''Timo'')) = Some col"
    using assms(1) by (simp add: pizza_request_def get_or_def)
  have cnt: "conversation_counter s (get_or (req_chat_id pizza_request) (u ''Timo'')) = Some k"
    using assms(2) by (simp add: pizza_request_def get_or_def)
  have rr: "read_response p (requests_post friendly_env pl) = Success (u ''Sure thing'') p" for p pl
    by (simp add: friendly_env_def sure_data_def read_response_def sure_clean)
  from store_total[OF chat cnt] obtain s' where
    st: "store_conversation_rag s (u ''2024-01-02T00:00:00'')
           (get_or (req_chat_id pizza_request) (u ''Timo''))
           (strip (get_or (req_message pizza_request) []))
           (get_or (req_persona pizza_request) [])
           (get_or (req_stance pizza_request) (u ''Agree'')) (u ''Sure thing'') = Inr s'"
    by blast
  have r: "generate_single_reply friendly_env s (u ''2024-01-02T00:00:00'') pizza_request
      = (\<lparr> status = 200, body = Success (u ''Sure thing'') (get_or (req_persona pizza_request) []) \<rparr>, s')"
    unfolding generate_single_reply_valid[OF key msg per chat] generate_reply_known[OF per chat]
    by (simp add: rr st)
  then show "fst (route s pizza_generation)
           = \<lparr> status = 200, body = Success (u ''Sure thing'') (u ''The Rebel'') \<rparr>"
    by (simp add: pizza_generation_def pizza_request_def get_or_def)
  from st have "store_exchange s (get_or (req_chat_id pizza_request) (u ''Timo''))
      (u ''2024-01-02T00:00:00'', strip (get_or (req_message pizza_request) []),
       get_or (req_persona pizza_request) [], get_or (req_stance pizza_request) (u ''Agree''),
       u ''Sure thing'') = Inr s'"
    by simp
  from store_exchange_form[OF this] r
  show "\<exists>col' k'. chat_collections (snd (route s pizza_generation)) (u ''Timo'') = Some col'
           \<and> conversation_counter (snd (route s pizza_generation)) (u ''Timo'') = Some k'"
    by (auto simp: pizza_generation_def pizza_request_def get_or_def)
qed

lemma friendly_run:
  assumes "chat_collections s (u ''Timo'') = Some col"
    and "conversation_counter s (u ''Timo'') = Some k"
  shows "stored_exchanges (u ''Timo'') (replicate n pizza_generation)
           (fst (generate_all s (replicate n pizza_generation)))
         = replicate n pizza_exchange"
  using assms
proof (induction n arbitrary: s col k)
  case 0
  show ?case by simp
next
  case (Suc n)
  from friendly_route(2)[OF Suc.prems] obtain col' k' where
    "chat_collections (snd (route s pizza_generation)) (u ''Timo'') = Some col'"
    "conversation_counter (snd (route s pizza_generation)) (u ''Timo'') = Some k'"
    by blast
  from Suc.IH[OF this] friendly_route(1)[OF Suc.prems] show ?case
    by (simp add: pizza_generation_def pizza_exchange_def pizza_request_def get_or_def strip_pizza)
qed

section \<open>Memory cap claim\<close>

text \<open>
  C1: take a chat whose collection is empty and whose counter is zero (the initial state,
  or the state a clear leaves) and any sequence of calls of the generate route, for any
  chats and with any outcomes. Let \<open>N\<close> be the number of calls for this chat whose
  response reports success. Then the chat's collection holds exactly the last
  \<open>min N 20\<close> of the \<open>N\<close> exchanges these calls have produced, in the order of the
  calls, with the ids \<open>{chat_id}_{i}\<close> of their positions, and the counter stands at
  \<open>N\<close>. As this holds for every sequence, the cap holds after each single call.
\<close>

theorem generations_keep_latest_twenty:
  assumes "chat_collections s chat_id = Some []" and "conversation_counter s chat_id = Some 0"
    and "xs = stored_exchanges chat_id gs (fst (generate_all s gs))"
  shows "chat_collections (snd (generate_all s gs)) chat_id
           = Some (drop (length xs - 20) (records_from chat_id 0 xs))
       \<and> length (drop (length xs - 20) (records_from chat_id 0 xs)) = min (length xs) 20
       \<and> conversation_counter (snd (generate_all s gs)) chat_id = Some (length xs)
       \<and> length xs = length (filter (succeeded_for chat_id) (zip gs (fst (generate_all s gs))))"
proof -
  have "ids_in_order chat_id 0 []" by (simp add: ids_in_order_def)
  from generate_all_general[OF assms(1,2) _ this, of gs]
  show ?thesis
    unfolding assms(3) by (auto simp: length_stored_exchanges)
qed

theorem generations_keep_latest_twenty_witness:
  "chat_collections init_state (u ''Timo'') = Some []
   \<and> conversation_counter init_state (u ''Timo'') = Some 0
   \<and> stored_exchanges (u ''Timo'') (replicate 22 pizza_generation)
        (fst (generate_all init_state (replicate 22 pizza_generation)))
      = replicate 22 pizza_exchange
   \<and> map rec_id
        (the (chat_collections (snd (generate_all init_state (replicate 22 pizza_generation)))
           (u ''Timo'')))
      = [u ''Timo_3'', u ''Timo_4'', u ''Timo_5'', u ''Timo_6'', u ''Timo_7'', u ''Timo_8'',
         u ''Timo_9'', u ''Timo_10'', u ''Timo_11'', u ''Timo_12'', u ''Timo_13'', u ''Timo_14'',
         u ''Timo_15'', u ''Timo_16'', u ''Timo_17'', u ''Timo_18'', u ''Timo_19'', u ''Timo_20'',
         u ''Timo_21'', u ''Timo_22'']
   \<and> conversation_counter (snd (generate_all init_state (replicate 22 pizza_generation)))
        (u ''Timo'') = Some 22"
proof -
  have h1: "chat_collections init_state (u ''Timo'') = Some []"
    and h2: "conversation_counter init_state (u ''Timo'') = Some 0"
    by (simp_all add: init_state_def)
  have fr: "stored_exchanges (u ''Timo'') (replicate 22 pizza_generation)
          (fst (generate_all init_state (replicate 22 pizza_generation)))
      = replicate 22 pizza_exchange"
    using h1 h2 by (rule friendly_run)
  have ids: "map rec_id (drop (length (replicate 22 pizza_exchange) - 20)
               (records_from (u ''Timo'') 0 (replicate 22 pizza_exchange)))
      = [u ''Timo_3'', u ''Timo_4'', u ''Timo_5'', u ''Timo_6'', u ''Timo_7'', u ''Timo_8'',
         u ''Timo_9'', u ''Timo_10'', u ''Timo_11'', u ''Timo_12'', u ''Timo_13'', u ''Timo_14'',
         u ''Timo_15'', u ''Timo_16'', u ''Timo_17'', u ''Timo_18'', u ''Timo_19'', u ''Timo_20'',
         u ''Timo_21'', u ''Timo_22'']"
    by code_simp
  from generations_keep_latest_twenty[OF h1 h2 fr[symmetric]]
  have c: "chat_collections (snd (generate_all init_state (replicate 22 pizza_generation))) (u ''Timo'')
      = Some (drop (length (replicate 22 pizza_exchange) - 20)
               (records_from (u ''Timo'') 0 (replicate 22 pizza_exchange)))"
    and k: "conversation_counter (snd (generate_all init_state (replicate 22 pizza_generation)))
        (u ''Timo'') = Some (length (replicate 22 pizza_exchange))"
    by blast+
  from c have c': "the (chat_collections (snd (generate_all init_state (replicate 22 pizza_generation)))
        (u ''Timo''))
      = drop (length (replicate 22 pizza_exchange) - 20)
               (records_from (u ''Timo'') 0 (replicate 22 pizza_exchange))"
    by simp
  from k have k': "conversation_counter (snd (generate_all init_state (replicate 22 pizza_generation)))
        (u ''Timo'') = Some 22"
    by simp
  from h1 h2 fr ids[folded c'] k' show ?thesis by blast
qed

section \<open>Lemmas on the substitution\<close>

lemma not_space_quote: "\<not> is_space double_quote"
  by (simp add: double_quote_def)

lemma quoted_match_shape:
  assumes "quoted_match s = Some (run, rest)"
  shows "\<exists>w1 w2. s = w1 # double_quote # run @ double_quote # w2 # rest
           \<and> is_space w1 \<and> is_space w2 \<and> 1 \<le> length run \<and> length run \<le> 30
           \<and> double_quote \<notin> set run"
proof -
  from assms obtain w q t q2 w2 where s: "s = w # q # t"
    and w: "is_space w" and q: "q = double_quote"
    and run: "run = takeWhile (\<lambda>c. c \<noteq> double_quote) t"
    and len: "1 \<le> length run" "length run \<le> 30"
    and after: "dropWhile (\<lambda>c. c \<noteq> double_quote) t = q2 # w2 # rest"
    and w2: "is_space w2"
    by (auto simp: quoted_match_def Let_def split: list.splits if_splits)
  from after have "dropWhile (\<lambda>c. c \<noteq> double_quote) t \<noteq> []" by simp
  then have "\<not> (hd (dropWhile (\<lambda>c. c \<noteq> double_quote) t) \<noteq> double_quote)"
    by (rule hd_dropWhile)
  with after have q2: "q2 = double_quote" by simp
  have "t = takeWhile (\<lambda>c. c \<noteq> double_quote) t @ dropWhile (\<lambda>c. c \<noteq> double_quote) t"
    by simp
  with run after q2 have t: "t = run @ double_quote # w2 # rest" by simp
  have "double_quote \<notin> set run"
    unfolding run by (auto dest: set_takeWhileD)
  with s w q t len w2 show ?thesis by blast
qed

lemma quoted_match_iff:
  "quoted_match s = Some (run, rest)
   \<longleftrightarrow> (\<exists>w1 w2. s = w1 # double_quote # run @ double_quote # w2 # rest
           \<and> is_space w1 \<and> is_space w2 \<and> 1 \<le> length run \<and> length run \<le> 30
           \<and> double_quote \<notin> set run)"
proof
  assume "quoted_match s = Some (run, rest)"
  then show "\<exists>w1 w2. s = w1 # double_quote # run @ double_quote # w2 # rest
           \<and> is_space w1 \<and> is_space w2 \<and> 1 \<le> length run \<and> length run \<le> 30
           \<and> double_quote \<notin> set run"
    by (rule quoted_match_shape)
next
  assume "\<exists>w1 w2. s = w1 # double_quote # run @ double_quote # w2 # rest
           \<and> is_space w1 \<and> is_space w2 \<and> 1 \<le> length run \<and> length run \<le> 30
           \<and> double_quote \<notin> set run"
  then obtain w1 w2 where s: "s = w1 # double_quote # run @ double_quote # w2 # rest"
    and h: "is_space w1" "is_space w2" "1 \<le> length run" "length run \<le> 30"
      "double_quote \<notin> set run"
    by blast
  from h(3) have "run \<noteq> []" by auto
  with h show "quoted_match s = Some (run, rest)"
    unfolding s by (intro quoted_match_hit)
qed

lemma re_sub_quotes_match:
  assumes "is_space w1" and "is_space w2" and "1 \<le> length run" and "length run \<le> 30"
    and "double_quote \<notin> set run"
  shows "re_sub_quotes (w1 # double_quote # run @ double_quote # w2 # rest)
         = u '' '' @ run @ u '' '' @ re_sub_quotes rest"
proof -
  from assms(3) have "run \<noteq> []" by auto
  with assms have "quoted_match (w1 # double_quote # run @ double_quote # w2 # rest) = Some (run, rest)"
    by (intro quoted_match_hit)
  then show ?thesis by simp
qed

lemma re_sub_quotes_copy:
  assumes "\<not> (\<exists>w1 run w2 rest. c # cs = w1 # double_quote # run @ double_quote # w2 # rest
           \<and> is_space w1 \<and> is_space w2 \<and> 1 \<le> length run \<and> length run \<le> 30
           \<and> double_quote \<notin> set run)"
  shows "re_sub_quotes (c # cs) = c # re_sub_quotes cs"
proof (cases "quoted_match (c # cs)")
  case None
  then show ?thesis by simp
next
  case (Some m)
  obtain run rest where "m = (run, rest)" by (cases m)
  with Some have "quoted_match (c # cs) = Some (run, rest)" by simp
  from quoted_match_shape[OF this] assms show ?thesis by blast
qed

lemma re_sub_quotes_head:
  assumes "\<not> is_space c"
  shows "re_sub_quotes (c # cs) = c # re_sub_quotes cs"
proof (rule re_sub_quotes_copy)
  show "\<not> (\<exists>w1 run w2 rest. c # cs = w1 # double_quote # run @ double_quote # w2 # rest
           \<and> is_space w1 \<and> is_space w2 \<and> 1 \<le> length run \<and> length run \<le> 30
           \<and> double_quote \<notin> set run)"
  proof
    assume "\<exists>w1 run w2 rest. c # cs = w1 # double_quote # run @ double_quote # w2 # rest
           \<and> is_space w1 \<and> is_space w2 \<and> 1 \<le> length run \<and> length run \<le> 30
           \<and> double_quote \<notin> set run"
    then obtain w1 where "c = w1" "is_space w1" by blast
    with assms show False by simp
  qed
qed

lemma re_sub_quotes_last:
  assumes "\<not> is_space c"
  shows "\<exists>t. re_sub_quotes (s @ [c]) = t @ [c]"
  using assms
proof (induction "s @ [c]" arbitrary: s rule: re_sub_quotes.induct)
  case 1
  then show ?case by simp
next
  case (2 d ds)
  show ?case
  proof (cases "quoted_match (d # ds)")
    case None
    show ?thesis
    proof (cases s)
      case Nil
      with 2(3) None show ?thesis by auto
    next
      case (Cons a s')
      with 2(3) have ds: "ds = s' @ [c]" and a: "a = d" by auto
      from 2(1)[OF None ds 2(4)] obtain t where "re_sub_quotes (s' @ [c]) = t @ [c]" by blast
      with None 2(3)[symmetric] ds have "re_sub_quotes (s @ [c]) = (d # t) @ [c]" by simp
      then show ?thesis by blast
    qed
  next
    case (Some m)
    obtain run rest where m: "m = (run, rest)" by (cases m)
    with Some have qm: "quoted_match (d # ds) = Some (run, rest)" by simp
    from quoted_match_shape[OF qm] obtain w1 w2 where
      shape: "d # ds = w1 # double_quote # run @ double_quote # w2 # rest" and w2: "is_space w2"
      by blast
    have "rest \<noteq> []"
    proof
      assume "rest = []"
      with shape have "last (d # ds) = w2" by simp
      moreover from 2(3) have "last (d # ds) = c" by simp
      ultimately show False using w2 2(4) by simp
    qed
    moreover have "last rest = c"
    proof -
      from shape \<open>rest \<noteq> []\<close> have "last (d # ds) = last rest" by simp
      moreover from 2(3) have "last (d # ds) = c" by simp
      ultimately show ?thesis by simp
    qed
    ultimately have "rest = butlast rest @ [c]"
      using append_butlast_last_id[of rest] by simp
    then obtain rest' where rest: "rest = rest' @ [c]" ..
    from m rest have m': "(run, rest' @ [c]) = m" by simp
    from 2(2)[OF Some m' 2(4)] obtain t where "re_sub_quotes (rest' @ [c]) = t @ [c]"
      by blast
    with qm rest 2(3)[symmetric] have "re_sub_quotes (s @ [c]) = (u '' '' @ run @ u '' '' @ t) @ [c]"
      by simp
    then show ?thesis by blast
  qed
qed

lemma read_response_text:
  assumes "g \<noteq> []"
  shows "read_response p
           (Returned \<lparr> data_candidates =
              Some (\<lparr> cand_finishReason = fr,
                      cand_content = Some \<lparr> content_parts = Some (\<lparr> part_text = Some g \<rparr> # ps) \<rparr> \<rparr>
                    # cs) \<rparr>)
         = Success (clean_text g) p"
  using assms by (simp add: read_response_def)

lemma strip_last:
  assumes "\<not> is_space c"
  shows "\<exists>r. strip (s @ [c]) = r @ [c]"
proof -
  have "\<exists>y. dropWhile is_space (s @ [c]) = y @ [c]"
  proof (cases "\<forall>x\<in>set s. is_space x")
    case True
    with assms have "dropWhile is_space (s @ [c]) = [] @ [c]" by simp
    then show ?thesis by blast
  next
    case False
    then obtain x where "x \<in> set s" "\<not> is_space x" by blast
    then have "dropWhile is_space (s @ [c]) = dropWhile is_space s @ [c]"
      by (rule dropWhile_append1)
    then show ?thesis by blast
  qed
  then obtain y where "dropWhile is_space (s @ [c]) = y @ [c]" by blast
  with assms have "strip (s @ [c]) = y @ [c]" by (simp add: strip_def)
  then show ?thesis by blast
qed

lemma strip_head:
  assumes "\<not> is_space c"
  shows "\<exists>r. strip (c # s) = c # r"
proof -
  have "\<exists>y. dropWhile is_space (rev s @ [c]) = y @ [c]"
  proof (cases "\<forall>x\<in>set (rev s). is_space x")
    case True
    then have "dropWhile is_space (rev s @ [c]) = dropWhile is_space [c]"
      by (intro dropWhile_append2) auto
    with assms have "dropWhile is_space (rev s @ [c]) = [] @ [c]" by simp
    then show ?thesis by blast
  next
    case False
    then obtain x where "x \<in> set (rev s)" "\<not> is_space x" by blast
    then have "dropWhile is_space (rev s @ [c]) = dropWhile is_space (rev s) @ [c]"
      by (rule dropWhile_append1)
    then show ?thesis by blast
  qed
  then obtain y where "dropWhile is_space (rev s @ [c]) = y @ [c]" by blast
  with assms have "strip (c # s) = c # rev y" by (simp add: strip_def)
  then show ?thesis by blast
qed

lemma quote_not_marker: "double_quote \<noteq> uc (CHR ''*'') \<and> double_quote \<noteq> uc (CHR ''_'')"
  by (simp add: double_quote_def uc_def)

lemma clean_text_head_quote: "\<exists>r. clean_text (double_quote # s) = double_quote # r"
proof -
  from strip_head[OF not_space_quote] obtain y where "strip (double_quote # s) = double_quote # y"
    by blast
  then show ?thesis
    using quote_not_marker
    by (simp add: clean_text_filter re_sub_quotes_head[OF not_space_quote] del: re_sub_quotes.simps)
qed

lemma clean_text_last_quote: "\<exists>r. clean_text (s @ [double_quote]) = r @ [double_quote]"
proof -
  from strip_last[OF not_space_quote] obtain y where "strip (s @ [double_quote]) = y @ [double_quote]"
    by blast
  then have "clean_text (s @ [double_quote])
      = re_sub_quotes (filter (\<lambda>c. c \<noteq> uc (CHR ''*'') \<and> c \<noteq> uc (CHR ''_'')) y @ [double_quote])"
    using quote_not_marker by (simp add: clean_text_filter)
  with re_sub_quotes_last[OF not_space_quote] show ?thesis by metis
qed

section \<open>Cleaning claim\<close>

text \<open>
  C3, as the claim states it, fails on its own example: the closing quote of
  \<open>he said "hello there"\<close> ends the text, no whitespace follows it, the pattern does
  not match and the quotation marks stay.
\<close>

theorem quoted_phrase_at_end_counterexample:
  "clean_text (u ''he said '' @ [double_quote] @ u ''hello there'' @ [double_quote])
   \<noteq> u ''he said hello there''"
  unfolding ex_end by (simp add: u_def uc_def double_quote_def)

text \<open>
  C3, amended: a non-empty generated text is returned cleaned. Cleaning strips the text,
  then removes every asterisk and underscore, then substitutes; no asterisk or underscore
  is left, and a text without quotation marks is only stripped and filtered. The
  substitution scans from the left: where the text starts with whitespace, a quotation
  mark, one to thirty characters that are not quotation marks, a quotation mark and
  whitespace, these become a space, the run and a space and the scan goes on behind
  them; where it does not start so, one character is copied. A quotation mark that
  starts or ends the text is kept. \<open>**bold**\<close> and \<open>_italic_\<close> lose their markers,
  \<open>he said "hello there" ok\<close> becomes \<open>he said hello there ok\<close>, and
  \<open>he said "hello there"\<close> is returned as it is.
\<close>

theorem clean_text_steps:
  "(g \<noteq> [] \<longrightarrow>
      read_response p
        (Returned \<lparr> data_candidates =
           Some (\<lparr> cand_finishReason = fr,
                   cand_content = Some \<lparr> content_parts = Some (\<lparr> part_text = Some g \<rparr> # ps) \<rparr> \<rparr>
                 # cs) \<rparr>)
      = Success (clean_text g) p)
   \<and> clean_text t
       = re_sub_quotes (filter (\<lambda>c. c \<noteq> uc (CHR ''*'') \<and> c \<noteq> uc (CHR ''_'')) (strip t))
   \<and> uc (CHR ''*'') \<notin> set (clean_text t) \<and> uc (CHR ''_'') \<notin> set (clean_text t)
   \<and> (double_quote \<notin> set t
        \<longrightarrow> clean_text t = filter (\<lambda>c. c \<noteq> uc (CHR ''*'') \<and> c \<noteq> uc (CHR ''_'')) (strip t))
   \<and> re_sub_quotes [] = []
   \<and> (is_space w1 \<and> is_space w2 \<and> 1 \<le> length run \<and> length run \<le> 30
        \<and> double_quote \<notin> set run
        \<longrightarrow> re_sub_quotes (w1 # double_quote # run @ double_quote # w2 # rest)
            = u '' '' @ run @ u '' '' @ re_sub_quotes rest)
   \<and> (\<not> (\<exists>w1 run w2 rest.
             c # s = w1 # double_quote # run @ double_quote # w2 # rest
             \<and> is_space w1 \<and> is_space w2 \<and> 1 \<le> length run \<and> length run \<le> 30
             \<and> double_quote \<notin> set run)
        \<longrightarrow> re_sub_quotes (c # s) = c # re_sub_quotes s)
   \<and> (\<exists>r. clean_text (double_quote # s) = double_quote # r)
   \<and> (\<exists>r. clean_text (s @ [double_quote]) = r @ [double_quote])
   \<and> clean_text (u ''**bold**'') = u ''bold''
   \<and> clean_text (u ''_italic_'') = u ''italic''
   \<and> clean_text (u ''he said '' @ [double_quote] @ u ''hello there'' @ [double_quote] @ u '' ok'')
       = u ''he said hello there ok''
   \<and> clean_text (u ''he said '' @ [double_quote] @ u ''hello there'' @ [double_quote])
       = u ''he said '' @ [double_quote] @ u ''hello there'' @ [double_quote]"
proof -
  have a: "double_quote \<notin> set t
        \<longrightarrow> clean_text t = filter (\<lambda>c. c \<noteq> uc (CHR ''*'') \<and> c \<noteq> uc (CHR ''_'')) (strip t)"
  proof
    assume nq: "double_quote \<notin> set t"
    have "set (strip t) \<subseteq> set t"
      by (auto simp: strip_def dest!: set_dropWhileD)
    with nq have "double_quote \<notin> set (filter (\<lambda>c. c \<noteq> uc (CHR ''*'') \<and> c \<noteq> uc (CHR ''_'')) (strip t))"
      by auto
    then show "clean_text t = filter (\<lambda>c. c \<noteq> uc (CHR ''*'') \<and> c \<noteq> uc (CHR ''_'')) (strip t)"
      unfolding clean_text_filter by (rule re_sub_quotes_no_quote)
  qed
  have b: "is_space w1 \<and> is_space w2 \<and> 1 \<le> length run \<and> length run \<le> 30
        \<and> double_quote \<notin> set run
        \<longrightarrow> re_sub_quotes (w1 # double_quote # run @ double_quote # w2 # rest)
            = u '' '' @ run @ u '' '' @ re_sub_quotes rest"
    using re_sub_quotes_match[of w1 w2 run rest] by blast
  have c: "\<not> (\<exists>w1 run w2 rest.
             c # s = w1 # double_quote # run @ double_quote # w2 # rest
             \<and> is_space w1 \<and> is_space w2 \<and> 1 \<le> length run \<and> length run \<le> 30
             \<and> double_quote \<notin> set run)
        \<longrightarrow> re_sub_quotes (c # s) = c # re_sub_quotes s"
    using re_sub_quotes_copy[of c s] by blast
  have r: "g \<noteq> [] \<longrightarrow>
      read_response p
        (Returned \<lparr> data_candidates =
           Some (\<lparr> cand_finishReason = fr,
                   cand_content = Some \<lparr> content_parts = Some (\<lparr> part_text = Some g \<rparr> # ps) \<rparr> \<rparr>
                 # cs) \<rparr>)
      = Success (clean_text g) p"
    using read_response_text[of g p fr ps cs] by blast
  have n: "re_sub_quotes [] = []" by simp
  from r clean_text_filter[of t] clean_text_no_markers[of t] a n b c
    clean_text_head_quote[of s] clean_text_last_quote[of s] ex_bold ex_italic ex_mid ex_end
  show ?thesis by blast
qed

theorem clean_text_steps_witness:
  "u ''**Sure** thing'' \<noteq> []
   \<and> read_response (u ''The Rebel'')
        (Returned \<lparr> data_candidates =
           Some [\<lparr> cand_finishReason = Some (u ''STOP''),
                   cand_content =
                     Some \<lparr> content_parts = Some [\<lparr> part_text = Some (u ''**Sure** thing'') \<rparr>] \<rparr> \<rparr>] \<rparr>)
      = Success (u ''Sure thing'') (u ''The Rebel'')
   \<and> double_quote \<notin> set (u '' **bold** and _italic_ '')
   \<and> clean_text (u '' **bold** and _italic_ '') = u ''bold and italic''
   \<and> is_space (uc (CHR '' '')) \<and> 1 \<le> length (u ''hello there'') \<and> length (u ''hello there'') \<le> 30
   \<and> double_quote \<notin> set (u ''hello there'')
   \<and> re_sub_quotes (uc (CHR '' '') # double_quote # u ''hello there'' @ double_quote # uc (CHR '' '') # u ''ok'')
       = u '' hello there ok''
   \<and> \<not> (\<exists>w1 run w2 rest.
           uc (CHR ''o'') # u ''k'' = w1 # double_quote # run @ double_quote # w2 # rest
           \<and> is_space w1 \<and> is_space w2 \<and> 1 \<le> length run \<and> length run \<le> 30
           \<and> double_quote \<notin> set run)
   \<and> re_sub_quotes (uc (CHR ''o'') # u ''k'') = u ''ok''"
proof -
  have h0: "u ''**Sure** thing'' \<noteq> []" by simp
  have h1: "double_quote \<notin> set (u '' **bold** and _italic_ '')"
    by (simp add: u_def uc_def double_quote_def)
  have h2: "is_space (uc (CHR '' '')) \<and> is_space (uc (CHR '' '')) \<and> 1 \<le> length (u ''hello there'')
      \<and> length (u ''hello there'') \<le> 30 \<and> double_quote \<notin> set (u ''hello there'')"
    by (simp add: u_def uc_def double_quote_def)
  have h3: "\<not> (\<exists>w1 run w2 rest.
           uc (CHR ''o'') # u ''k'' = w1 # double_quote # run @ double_quote # w2 # rest
           \<and> is_space w1 \<and> is_space w2 \<and> 1 \<le> length run \<and> length run \<le> 30
           \<and> double_quote \<notin> set run)"
    by (simp add: u_def uc_def double_quote_def)
  have sure: "clean_text (u ''**Sure** thing'') = u ''Sure thing''"
    by (simp add: u_def uc_def clean_text_def remove_char_def strip_def quoted_match_def double_quote_def)
  have f: "filter (\<lambda>c. c \<noteq> uc (CHR ''*'') \<and> c \<noteq> uc (CHR ''_'')) (strip (u '' **bold** and _italic_ ''))
           = u ''bold and italic''"
    by (simp add: u_def uc_def strip_def)
  have k: "re_sub_quotes (u ''k'') = u ''k''" "re_sub_quotes (u ''ok'') = u ''ok''"
    by (simp_all add: u_def uc_def quoted_match_def double_quote_def)
  have o: "uc (CHR ''o'') # u ''k'' = u ''ok''" by (simp add: u_def)
  note t = clean_text_steps[of "u ''**Sure** thing''" "u ''The Rebel''" "Some (u ''STOP'')" "[]" "[]"
      "u '' **bold** and _italic_ ''" "uc (CHR '' '')" "uc (CHR '' '')" "u ''hello there''" "u ''ok''"
      "uc (CHR ''o'')" "u ''k''"]
  from t h0 have a: "read_response (u ''The Rebel'')
        (Returned \<lparr> data_candidates =
           Some [\<lparr> cand_finishReason = Some (u ''STOP''),
                   cand_content =
                     Some \<lparr> content_parts = Some [\<lparr> part_text = Some (u ''**Sure** thing'') \<rparr>] \<rparr> \<rparr>] \<rparr>)
      = Success (clean_text (u ''**Sure** thing'')) (u ''The Rebel'')"
    by blast
  from t h1 have b: "clean_text (u '' **bold** and _italic_ '')
      = filter (\<lambda>c. c \<noteq> uc (CHR ''*'') \<and> c \<noteq> uc (CHR ''_'')) (strip (u '' **bold** and _italic_ ''))"
    by blast
  from t h2 have c: "re_sub_quotes (uc (CHR '' '') # double_quote # u ''hello there'' @ double_quote # uc (CHR '' '') # u ''ok'')
      = u '' '' @ u ''hello there'' @ u '' '' @ re_sub_quotes (u ''ok'')"
    by blast
  from t h3 have d: "re_sub_quotes (uc (CHR ''o'') # u ''k'') = uc (CHR ''o'') # re_sub_quotes (u ''k'')"
    by blast
  from a sure have a': "read_response (u ''The Rebel'')
        (Returned \<lparr> data_candidates =
           Some [\<lparr> cand_finishReason = Some (u ''STOP''),
                   cand_content =
                     Some \<lparr> content_parts = Some [\<lparr> part_text = Some (u ''**Sure** thing'') \<rparr>] \<rparr> \<rparr>] \<rparr>)
      = Success (u ''Sure thing'') (u ''The Rebel'')" by simp
  from b f have b': "clean_text (u '' **bold** and _italic_ '') = u ''bold and italic''" by simp
  from c k have c': "re_sub_quotes (uc (CHR '' '') # double_quote # u ''hello there'' @ double_quote # uc (CHR '' '') # u ''ok'')
       = u '' hello there ok''" by simp
  from d k o have d': "re_sub_quotes (uc (CHR ''o'') # u ''k'') = u ''ok''" by simp
  from h0 a' h1 b' h2 c' h3 d' show ?thesis by blast
qed

end
